theory Spec2Isabelle
  imports Complex_Main "HOL-Library.Sublist"
begin

text \<open>
  The component \<open>ScoresTable\<close> of \<open>web/src/components/table/use-cases/scores.tsx\<close>:
  it reads the pagination, the filter and the sort order from three state hooks, composes
  the request of the scores query, declares the columns of the table with their cell
  renderers, and hands the toolbar and the table their props. The component is a function
  of its props, of the address that the hooks decode and of the results of its two
  queries; one call of it is one rendering.
\<close>

section \<open>JavaScript values used by the scores table\<close>

text \<open>
  A JavaScript number is an IEEE double. A finite double is modelled by the real number it
  denotes (every finite double is a dyadic rational); the three non-finite doubles are
  constructors of their own. The model has one zero: \<open>-0 === 0\<close> holds in JavaScript and
  no operation below tells the two apart.
\<close>

datatype js_number = Finite real | NaN | PosInfinity | NegInfinity

datatype js_error = TypeError | URIError | RangeError

text \<open>The functions of the host that are left open: \<open>Number::toString\<close> on a positive
  number that is not integral (no such call decides a statement below), and
  \<open>Date.prototype.toLocaleString\<close> on a time value (milliseconds since the epoch), which
  depends on the locale.\<close>

record js_host =
  fraction_toString :: "real \<Rightarrow> string"
  Date_toLocaleString :: "int \<Rightarrow> string"

text \<open>\<open>a === b\<close> on numbers: \<open>NaN\<close> equals nothing.\<close>

definition strict_equals :: "js_number \<Rightarrow> js_number \<Rightarrow> bool" where
  "strict_equals a b = (a \<noteq> NaN \<and> b \<noteq> NaN \<and> a = b)"

definition Math_trunc :: "real \<Rightarrow> real" where
  "Math_trunc x = of_int (if 0 \<le> x then \<lfloor>x\<rfloor> else \<lceil>x\<rceil>)"

text \<open>\<open>n % d\<close> (Number::remainder). The result of the finite case is exact in IEEE
  arithmetic, so the real remainder is the double the program computes.\<close>

fun remainder :: "js_number \<Rightarrow> js_number \<Rightarrow> js_number" where
  "remainder (Finite n) (Finite d) =
     (if d = 0 then NaN else Finite (n - d * Math_trunc (n / d)))"
| "remainder (Finite n) PosInfinity = Finite n"
| "remainder (Finite n) NegInfinity = Finite n"
| "remainder _ _ = NaN"

subsection \<open>Rounding to a double\<close>

text \<open>The number of binary digits of a natural number.\<close>

fun bit_length :: "nat \<Rightarrow> nat" where
  "bit_length n = (if n = 0 then 0 else Suc (bit_length (n div 2)))"

declare bit_length.simps [simp del]

definition pow2 :: "int \<Rightarrow> real" where
  "pow2 e = (if 0 \<le> e then 2 ^ nat e else 1 / 2 ^ nat (- e))"

text \<open>The binary exponent of a positive number: \<open>2^e \<le> x < 2^(e+1)\<close>.\<close>

definition binade :: "real \<Rightarrow> int" where
  "binade x =
     (if 1 \<le> x then int (bit_length (nat \<lfloor>x\<rfloor>)) - 1
      else - int (bit_length (nat (\<lceil>1 / x\<rceil> - 1))))"

text \<open>The nearest integer, the even one of two.\<close>

definition round_half_even :: "real \<Rightarrow> int" where
  "round_half_even r =
     (let f = \<lfloor>r\<rfloor>; d = r - of_int f
      in if d < 1 / 2 then f else if 1 / 2 < d then f + 1 else if even f then f else f + 1)"

text \<open>The distance between neighbouring doubles around \<open>x\<close>: 52 binary digits below
  the exponent of \<open>x\<close>, and \<open>2^-1074\<close> for a subnormal \<open>x\<close>.\<close>

definition ulp :: "real \<Rightarrow> real" where
  "ulp x = pow2 (max (binade \<bar>x\<bar>) (- 1022) - 52)"

text \<open>The result of an IEEE operation whose exact result is \<open>x\<close>: the nearest double,
  the one with an even significand of two (round to nearest, ties to even), with an
  unbounded exponent; a result of magnitude \<open>2^1024\<close> or more is an overflow.\<close>

definition round_double :: "real \<Rightarrow> real" where
  "round_double x =
     (if x = 0 then 0
      else sgn x * of_int (round_half_even (\<bar>x\<bar> / ulp x)) * ulp x)"

text \<open>\<open>a / b\<close> on integer-valued numbers, and \<open>Math.ceil\<close>. Division by zero gives
  \<open>NaN\<close> or an infinity in JavaScript, never the \<open>0\<close> of HOL; any other quotient
  is rounded to a double. The operands are doubles themselves, so the model is the
  program on the integers that a double holds.\<close>

definition divide_int :: "int \<Rightarrow> int \<Rightarrow> js_number" where
  "divide_int a b =
     (if b = 0 then (if a = 0 then NaN else if 0 < a then PosInfinity else NegInfinity)
      else
        let r = round_double (real_of_int a / real_of_int b)
        in if 2 ^ 1024 \<le> r then PosInfinity
           else if r \<le> - (2 ^ 1024) then NegInfinity
           else Finite r)"

fun Math_ceil :: "js_number \<Rightarrow> js_number" where
  "Math_ceil (Finite x) = Finite (of_int \<lceil>x\<rceil>)"
| "Math_ceil x = x"

subsection \<open>Decimal digits\<close>

definition digitChar :: "nat \<Rightarrow> char" where
  "digitChar d = ''0123456789'' ! d"

text \<open>The decimal representation of a natural number, without leading zeros.\<close>

fun digits :: "nat \<Rightarrow> string" where
  "digits n = (if n < 10 then [digitChar n] else digits (n div 10) @ [digitChar (n mod 10)])"

declare digits.simps [simp del]

text \<open>Step 11 of \<open>Number.prototype.toFixed\<close> (ECMA-262), for \<open>0 \<le> x < 10^21\<close>:
  \<open>n\<close> is the integer for which \<open>n / 10^f - x\<close> is closest to zero, the larger one
  of two; its digits are padded with zeros to \<open>f + 1\<close> characters and the point is put
  before the last \<open>f\<close>.\<close>

definition fixedDigits :: "nat \<Rightarrow> real \<Rightarrow> string" where
  "fixedDigits f x =
     (let n = nat \<lfloor>x * 10 ^ f + 1 / 2\<rfloor>;
          m = digits n
      in if f = 0 then m
         else
           let m' = (if length m \<le> f then replicate (f + 1 - length m) (CHR ''0'') @ m else m);
               k = length m'
           in take (k - f) m' @ ''.'' @ drop (k - f) m')"

subsection \<open>Number::toString\<close>

text \<open>
  Step 5 of \<open>Number::toString\<close> (ECMA-262) for a positive integral double \<open>x\<close>: the
  decimal \<open>s * 10^(n-k)\<close> with the fewest digits \<open>k\<close> that rounds to \<open>x\<close>. With
  \<open>k\<close> digits the candidates are the two multiples of \<open>p = 10^j\<close> around \<open>x\<close>,
  where \<open>j\<close> goes down from the number of digits of \<open>x\<close> less one; of two
  candidates that round to \<open>x\<close> the closer one is taken, the even one at equal distance.
  With \<open>j = 0\<close> the decimal is \<open>x\<close> itself.
\<close>

fun shortest_decimal :: "nat \<Rightarrow> nat \<Rightarrow> nat" where
  "shortest_decimal x 0 = x"
| "shortest_decimal x (Suc j) =
     (let p = 10 ^ Suc j;
          lo = (x div p) * p;
          hi = lo + p;
          l = (round_double (real lo) = real x);
          h = (round_double (real hi) = real x)
      in if l \<and> h then
           (if hi - x < x - lo then hi
            else if x - lo < hi - x then lo
            else if even (x div p) then lo else hi)
         else if l then lo
         else if h then hi
         else shortest_decimal x j)"

definition strip_zeros :: "string \<Rightarrow> string" where
  "strip_zeros ds = rev (dropWhile (\<lambda>c. c = CHR ''0'') (rev ds))"

text \<open>Steps 6, 9 and 10 for a positive integral double: up to 21 digits the digits of the
  decimal, that is the digits of \<open>s\<close> and \<open>n - k\<close> zeros; beyond, the first digit
  of \<open>s\<close>, a point and the other digits if there are any, and the exponent
  \<open>n - 1\<close>.\<close>

definition integer_toString :: "nat \<Rightarrow> string" where
  "integer_toString x =
     (let y = shortest_decimal x (length (digits x) - 1);
          ds = digits y;
          n = length ds
      in if n \<le> 21 then ds
         else
           let s = strip_zeros ds
           in hd s # (if 1 < length s then ''.'' @ tl s else []) @ ''e+'' @ digits (n - 1))"

definition Number_toString :: "js_host \<Rightarrow> js_number \<Rightarrow> string" where
  "Number_toString host x =
     (case x of
        NaN \<Rightarrow> ''NaN''
      | PosInfinity \<Rightarrow> ''Infinity''
      | NegInfinity \<Rightarrow> ''-Infinity''
      | Finite r \<Rightarrow>
          if r = 0 then ''0''
          else
            (if r < 0 then ''-'' else []) @
            (if \<bar>r\<bar> = of_int \<lfloor>\<bar>r\<bar>\<rfloor> then integer_toString (nat \<lfloor>\<bar>r\<bar>\<rfloor>)
             else fraction_toString host \<bar>r\<bar>))"

subsection \<open>Number.prototype.toFixed\<close>

definition toFixed :: "js_host \<Rightarrow> nat \<Rightarrow> js_number \<Rightarrow> js_error + string" where
  "toFixed host fractionDigits x =
     (if 100 < fractionDigits then Inl RangeError
      else case x of
        NaN \<Rightarrow> Inr ''NaN''
      | PosInfinity \<Rightarrow> Inr ''Infinity''
      | NegInfinity \<Rightarrow> Inr ''-Infinity''
      | Finite r \<Rightarrow>
          (let s = (if r < 0 then ''-'' else '''');
               a = \<bar>r\<bar>
           in if 10 ^ 21 \<le> a then Inr (s @ Number_toString host (Finite a))
              else Inr (s @ fixedDigits fractionDigits a)))"

subsection \<open>encodeURIComponent, template literals, truthiness\<close>

text \<open>
  A JavaScript string is modelled by its bytes in (generalised) UTF-8, so that an ASCII
  literal is itself. In that encoding a surrogate code unit that is not part of a pair is
  the only thing encoded with lead byte \<open>0xED\<close> followed by a byte from \<open>0xA0\<close> on;
  \<open>encodeURIComponent\<close> throws \<open>URIError\<close> exactly on such strings, and otherwise
  escapes every byte that is not an unreserved character.
\<close>

fun hasLoneSurrogate :: "string \<Rightarrow> bool" where
  "hasLoneSurrogate (a # b # cs) =
     ((of_char a = (0xED :: nat) \<and> (0xA0 :: nat) \<le> of_char b) \<or> hasLoneSurrogate (b # cs))"
| "hasLoneSurrogate _ = False"

definition uriUnreserved :: "char \<Rightarrow> bool" where
  "uriUnreserved c =
     (c \<in> set ''ABCDEFGHIJKLMNOPQRSTUVWXYZabcdefghijklmnopqrstuvwxyz0123456789-_.!~*()''
      \<or> c = CHR 0x27)"

definition hexChar :: "nat \<Rightarrow> char" where
  "hexChar d = ''0123456789ABCDEF'' ! d"

definition percentEncode :: "char \<Rightarrow> string" where
  "percentEncode c =
     (if uriUnreserved c then [c]
      else [CHR ''%'', hexChar (of_char c div 16), hexChar (of_char c mod 16)])"

definition encodeURIComponent :: "string \<Rightarrow> js_error + string" where
  "encodeURIComponent s =
     (if hasLoneSurrogate s then Inl URIError else Inr (concat (map percentEncode s)))"

text \<open>\<open>xs.includes(x)\<close> on an array of strings.\<close>

definition array_includes :: "'a list \<Rightarrow> 'a \<Rightarrow> bool" where
  "array_includes xs x = (x \<in> set xs)"

text \<open>\<open>`${v}`\<close> for a string that may be undefined.\<close>

definition templateString :: "string option \<Rightarrow> string" where
  "templateString v = (case v of None \<Rightarrow> ''undefined'' | Some s \<Rightarrow> s)"

text \<open>The truth value of a string that may be undefined: the empty string is falsy.\<close>

definition truthy :: "string option \<Rightarrow> bool" where
  "truthy v = (case v of None \<Rightarrow> False | Some s \<Rightarrow> s \<noteq> [])"

section \<open>Data model\<close>

datatype filter_value =
  StringValue string | NumberValue js_number | StringListValue "string list"

record FilterCondition =
  column :: string
  type :: string
  operator :: string
  value' :: filter_value

datatype order_direction = ASC | DESC

record OrderByState =
  column :: string
  order :: order_direction

record PaginationState =
  pageIndex :: int
  pageSize :: int

text \<open>The props of the component. \<open>omittedFilter\<close> has the default \<open>[]\<close>.\<close>

record props =
  projectId :: string
  userId :: "string option"
  omittedFilter :: "string list option"

text \<open>
  The address space (the query string of the URL) that the three state hooks read: each
  fragment decoded, \<open>None\<close> when it is absent or does not decode. The sort order can be
  stored as "no sort", hence the nested option.
\<close>

record address =
  pageIndex_param :: "int option"
  pageSize_param :: "int option"
  filter_param :: "FilterCondition list option"
  orderBy_param :: "OrderByState option option"

definition no_fragments :: address where
  "no_fragments =
     \<lparr>pageIndex_param = None, pageSize_param = None, filter_param = None,
      orderBy_param = None\<rparr>"

text \<open>The argument of \<open>api.scores.all.useQuery\<close>.\<close>

record fetch_request =
  page :: int
  limit :: int
  projectId :: string
  filter' :: "FilterCondition list"
  orderBy :: "OrderByState option"

text \<open>One score of the response, and the response of \<open>scores.all\<close>.\<close>

record score =
  id' :: string
  timestamp :: int
  name :: string
  value' :: js_number
  comment :: "string option"
  observationId :: "string option"
  traceId :: string
  traceName :: string
  userId :: "string option"

record scores_all =
  scores :: "score list"
  totalCount :: int

record trpc_error =
  message :: string

text \<open>The result object of the query hook, with the fields the component reads.\<close>

record query_result =
  isLoading :: bool
  isError :: bool
  error :: "trpc_error option"
  data :: "scores_all option"

record ScoresTableRow =
  id' :: string
  traceId :: string
  timestamp :: string
  name :: string
  value' :: js_number
  comment :: "string option"
  observationId :: "string option"
  traceName :: string
  userId :: "string option"

text \<open>
  What \<open>row.getValue\<close> returns to a cell renderer for each key that a renderer reads: a
  value of the field's declared type, or \<open>None\<close> for \<open>undefined\<close>. The type
  \<open>ScoresTableRow\<close> requires \<open>traceId\<close>, \<open>traceName\<close> and \<open>value\<close>, but the
  renderers run on whatever the table hands them, and three of them test for it.
\<close>

record Row =
  getValue_traceId :: "string option"
  getValue_observationId :: "string option"
  getValue_traceName :: "string option"
  getValue_value :: "js_number option"
  getValue_userId :: "string option"

definition row_of :: "ScoresTableRow \<Rightarrow> Row" where
  "row_of r =
     \<lparr>getValue_traceId = Some (ScoresTableRow.traceId r),
      getValue_observationId = ScoresTableRow.observationId r,
      getValue_traceName = Some (ScoresTableRow.traceName r),
      getValue_value = Some (ScoresTableRow.value' r),
      getValue_userId = ScoresTableRow.userId r\<rparr>"

text \<open>What a cell renderer returns: \<open>undefined\<close>, \<open>null\<close>, a number, a string, a
  \<open>TableLink\<close> element with its props, or a fragment around an element.\<close>

datatype react_node =
  Undefined
| Null
| Number js_number
| Text string
| TableLink (path: string) (link_value: "string option") (truncateAt: "nat option")
| Fragment react_node

text \<open>The text that React puts into the page for a node that is not an element: nothing
  for \<open>undefined\<close> and \<open>null\<close>, \<open>Number::toString\<close> of a number, a string as it
  is.\<close>

fun node_text :: "js_host \<Rightarrow> react_node \<Rightarrow> string option" where
  "node_text host Undefined = Some []"
| "node_text host Null = Some []"
| "node_text host (Number x) = Some (Number_toString host x)"
| "node_text host (Text s) = Some s"
| "node_text host (TableLink p v t) = None"
| "node_text host (Fragment n) = None"

record LangfuseColumnDef =
  accessorKey :: string
  id' :: string
  header :: string
  enableColumnFilter :: "bool option"
  enableSorting :: "bool option"
  enableHiding :: "bool option"
  cell :: "(Row \<Rightarrow> js_error + react_node) option"

text \<open>A descriptor of a filterable column; the filter of the component reads its
  \<open>name\<close> only, the other fields are the extension of the record.\<close>

record ColumnDefinition =
  name :: string

text \<open>The data prop of the table.\<close>

record AsyncTableData =
  isLoading :: bool
  isError :: bool
  error :: "string option"
  data :: "ScoresTableRow list option"

record pagination_props =
  pageCount :: js_number
  state :: PaginationState

record 'c DataTableToolbar_props =
  toolbar_columns :: "LangfuseColumnDef list"
  toolbar_filterColumnDefinition :: "'c ColumnDefinition_scheme list"
  toolbar_filterState :: "FilterCondition list"

record DataTable_props =
  table_columns :: "LangfuseColumnDef list"
  table_data :: AsyncTableData
  table_pagination :: pagination_props
  table_orderBy :: "OrderByState option"

text \<open>One rendering of the component: the request it hands to the query hook and the
  props it hands to the toolbar and to the table.\<close>

record 'c rendering =
  query :: fetch_request
  toolbar :: "'c DataTableToolbar_props"
  table :: DataTable_props

section \<open>State hooks\<close>

text \<open>Modelled from the spec: the hooks \<open>useQueryParams\<close>, \<open>useQueryFilterState\<close> and
  \<open>useOrderByState\<close> are not part of the source file. A fragment that is absent or
  invalid falls back to the default given by the caller.\<close>

definition withDefault :: "'a option \<Rightarrow> 'a \<Rightarrow> 'a" where
  "withDefault decoded d = (case decoded of None \<Rightarrow> d | Some v \<Rightarrow> v)"

text \<open>Modelled from the spec: the filter hook returns the stored sequence of conditions,
  or the initial state given by the caller when the address has none. The second argument
  is the name of the table.\<close>

definition useQueryFilterState ::
  "FilterCondition list \<Rightarrow> string \<Rightarrow> address \<Rightarrow> FilterCondition list" where
  "useQueryFilterState initialState tableName addr = withDefault (filter_param addr) initialState"

text \<open>Modelled from the spec: the sort hook returns the stored sort order (possibly none),
  or the default given at construction when the address has no value.\<close>

definition useOrderByState :: "OrderByState \<Rightarrow> address \<Rightarrow> OrderByState option" where
  "useOrderByState initialState addr = withDefault (orderBy_param addr) (Some initialState)"

text \<open>Modelled from the spec: the setter of the pagination state replaces the fields that
  are given; fields that are not given keep their prior values.\<close>

record pagination_update =
  pageIndex_update :: "int option"
  pageSize_update :: "int option"

definition setPaginationState :: "pagination_update \<Rightarrow> address \<Rightarrow> address" where
  "setPaginationState changes addr =
     addr\<lparr>pageIndex_param :=
            (case pageIndex_update changes of None \<Rightarrow> pageIndex_param addr | Some i \<Rightarrow> Some i),
          pageSize_param :=
            (case pageSize_update changes of None \<Rightarrow> pageSize_param addr | Some n \<Rightarrow> Some n)\<rparr>"

text \<open>Modelled from the spec: the setter of the user filter state replaces the whole
  sequence.\<close>

definition setUserFilterState :: "FilterCondition list \<Rightarrow> address \<Rightarrow> address" where
  "setUserFilterState fs addr = addr\<lparr>filter_param := Some fs\<rparr>"

section \<open>The component ScoresTable\<close>

definition paginationState :: "address \<Rightarrow> PaginationState" where
  "paginationState addr =
     \<lparr>pageIndex = withDefault (pageIndex_param addr) 0,
      pageSize = withDefault (pageSize_param addr) 50\<rparr>"

definition userFilterState :: "address \<Rightarrow> FilterCondition list" where
  "userFilterState addr = useQueryFilterState [] ''scores'' addr"

text \<open>The condition that pins the user.\<close>

definition userIdFilter :: "string \<Rightarrow> FilterCondition" where
  "userIdFilter u =
     \<lparr>FilterCondition.column = ''User ID'', type = ''string'', operator = ''='',
      FilterCondition.value' = StringValue u\<rparr>"

text \<open>\<open>userId ? userFilterState.concat([...]) : userFilterState\<close>: the test is the
  truth value of the prop, which is false for an absent and for an empty \<open>userId\<close>.\<close>

definition filterState :: "props \<Rightarrow> address \<Rightarrow> FilterCondition list" where
  "filterState p addr =
     (case props.userId p of
        Some u \<Rightarrow>
          if truthy (Some u) then userFilterState addr @ [userIdFilter u]
          else userFilterState addr
      | None \<Rightarrow> userFilterState addr)"

definition orderByState :: "address \<Rightarrow> OrderByState option" where
  "orderByState addr =
     useOrderByState \<lparr>OrderByState.column = ''timestamp'', order = DESC\<rparr> addr"

text \<open>The argument of \<open>api.scores.all.useQuery\<close>.\<close>

definition scores_query :: "props \<Rightarrow> address \<Rightarrow> fetch_request" where
  "scores_query p addr =
     \<lparr>page = pageIndex (paginationState addr),
      limit = pageSize (paginationState addr),
      fetch_request.projectId = props.projectId p,
      filter' = filterState p addr,
      orderBy = orderByState addr\<rparr>"

text \<open>\<open>scores.data?.totalCount ?? 0\<close>\<close>

definition totalCount :: "query_result \<Rightarrow> int" where
  "totalCount q =
     (case query_result.data q of None \<Rightarrow> 0 | Some d \<Rightarrow> scores_all.totalCount d)"

subsection \<open>Cell renderers\<close>

definition traceId_cell :: "string \<Rightarrow> Row \<Rightarrow> js_error + react_node" where
  "traceId_cell pid row =
     (case getValue_traceId row of
        Some v \<Rightarrow> Inr (Fragment (TableLink (''/project/'' @ pid @ ''/traces/'' @ v) (Some v) None))
      | None \<Rightarrow> Inr Undefined)"

definition observationId_cell :: "string \<Rightarrow> Row \<Rightarrow> js_error + react_node" where
  "observationId_cell pid row =
     (case (getValue_observationId row, getValue_traceId row) of
        (Some obs, Some tr) \<Rightarrow>
          Inr (TableLink (''/project/'' @ pid @ ''/traces/'' @ tr @ ''?observation='' @ obs)
                 (Some obs) None)
      | _ \<Rightarrow> Inr Null)"

text \<open>The filter is encoded before the test on the value, as in the source, so that an
  error of \<open>encodeURIComponent\<close> is an error of the renderer.\<close>

definition traceName_cell :: "string \<Rightarrow> Row \<Rightarrow> js_error + react_node" where
  "traceName_cell pid row =
     (let v = getValue_traceName row
      in case encodeURIComponent (''name;stringOptions;;any of;'' @ templateString v) of
           Inl e \<Rightarrow> Inl e
         | Inr flt \<Rightarrow>
             Inr (TableLink
                    (''/project/'' @ pid @ ''/traces?filter='' @ (if truthy v then flt else []))
                    v (Some 40)))"

text \<open>\<open>value % 1 === 0 ? value : value.toFixed(4)\<close>. On \<open>undefined\<close> the remainder is
  \<open>NaN\<close>, the test is false, and the method call on \<open>undefined\<close> throws.\<close>

definition value_cell :: "js_host \<Rightarrow> Row \<Rightarrow> js_error + react_node" where
  "value_cell host row =
     (let v = getValue_value row;
          n = (case v of None \<Rightarrow> NaN | Some x \<Rightarrow> x)
      in if strict_equals (remainder n (Finite 1)) (Finite 0)
         then Inr (case v of None \<Rightarrow> Undefined | Some x \<Rightarrow> Number x)
         else (case v of
                 None \<Rightarrow> Inl TypeError
               | Some x \<Rightarrow>
                   (case toFixed host 4 x of Inl e \<Rightarrow> Inl e | Inr s \<Rightarrow> Inr (Text s))))"

definition userId_cell :: "string \<Rightarrow> Row \<Rightarrow> js_error + react_node" where
  "userId_cell pid row =
     (case getValue_userId row of
        Some v \<Rightarrow>
          Inr (Fragment (TableLink (''/project/'' @ pid @ ''/users/'' @ v) (Some v) (Some 40)))
      | None \<Rightarrow> Inr Undefined)"

definition columns :: "js_host \<Rightarrow> string \<Rightarrow> LangfuseColumnDef list" where
  "columns host pid =
     [\<lparr>accessorKey = ''traceId'', LangfuseColumnDef.id' = ''traceId'', header = ''Trace ID'',
       enableColumnFilter = Some True, enableSorting = Some True, enableHiding = None,
       cell = Some (traceId_cell pid)\<rparr>,
      \<lparr>accessorKey = ''observationId'', LangfuseColumnDef.id' = ''observationId'',
       header = ''Observation ID'',
       enableColumnFilter = None, enableSorting = Some True, enableHiding = None,
       cell = Some (observationId_cell pid)\<rparr>,
      \<lparr>accessorKey = ''traceName'', LangfuseColumnDef.id' = ''traceName'', header = ''Trace Name'',
       enableColumnFilter = None, enableSorting = Some True, enableHiding = Some True,
       cell = Some (traceName_cell pid)\<rparr>,
      \<lparr>accessorKey = ''timestamp'', LangfuseColumnDef.id' = ''timestamp'', header = ''Timestamp'',
       enableColumnFilter = None, enableSorting = Some True, enableHiding = Some True,
       cell = None\<rparr>,
      \<lparr>accessorKey = ''name'', LangfuseColumnDef.id' = ''name'', header = ''Name'',
       enableColumnFilter = None, enableSorting = Some True, enableHiding = Some True,
       cell = None\<rparr>,
      \<lparr>accessorKey = ''value'', LangfuseColumnDef.id' = ''value'', header = ''Value'',
       enableColumnFilter = None, enableSorting = Some True, enableHiding = Some True,
       cell = Some (value_cell host)\<rparr>,
      \<lparr>accessorKey = ''userId'', LangfuseColumnDef.id' = ''userId'', header = ''User ID'',
       enableColumnFilter = None, enableSorting = Some True, enableHiding = Some True,
       cell = Some (userId_cell pid)\<rparr>,
      \<lparr>accessorKey = ''comment'', LangfuseColumnDef.id' = ''comment'', header = ''Comment'',
       enableColumnFilter = None, enableSorting = None, enableHiding = Some True,
       cell = None\<rparr>]"

subsection \<open>Rows, filter columns, table data\<close>

text \<open>\<open>x ?? undefined\<close> leaves an optional field as it is.\<close>

definition convertToTableRow :: "js_host \<Rightarrow> score \<Rightarrow> ScoresTableRow" where
  "convertToTableRow host s =
     \<lparr>ScoresTableRow.id' = score.id' s,
      ScoresTableRow.traceId = score.traceId s,
      ScoresTableRow.timestamp = Date_toLocaleString host (score.timestamp s),
      ScoresTableRow.name = score.name s,
      ScoresTableRow.value' = score.value' s,
      ScoresTableRow.comment = score.comment s,
      ScoresTableRow.observationId = score.observationId s,
      ScoresTableRow.traceName = score.traceName s,
      ScoresTableRow.userId = score.userId s\<rparr>"

text \<open>\<open>scoresTableColsWithOptions\<close> is imported from the server's definitions and is a
  parameter here: it maps the filter options, once they have arrived, to the descriptors
  of all filterable columns.\<close>

definition transformFilterOptions ::
  "('o option \<Rightarrow> 'c ColumnDefinition_scheme list) \<Rightarrow> props \<Rightarrow> 'o option
     \<Rightarrow> 'c ColumnDefinition_scheme list" where
  "transformFilterOptions scoresTableColsWithOptions p traceFilterOptions =
     filter (\<lambda>c. \<not> array_includes (withDefault (omittedFilter p) []) (ColumnDefinition.name c))
       (scoresTableColsWithOptions traceFilterOptions)"

text \<open>The data prop. Reading \<open>.message\<close> of a missing error, or \<open>.scores\<close> of missing
  data, throws; the type of the query result rules both out.\<close>

definition tableData :: "js_host \<Rightarrow> query_result \<Rightarrow> js_error + AsyncTableData" where
  "tableData host q =
     (if query_result.isLoading q
      then Inr \<lparr>AsyncTableData.isLoading = True, AsyncTableData.isError = False,
                AsyncTableData.error = None, AsyncTableData.data = None\<rparr>
      else if query_result.isError q
      then (case query_result.error q of
              None \<Rightarrow> Inl TypeError
            | Some e \<Rightarrow>
                Inr \<lparr>AsyncTableData.isLoading = False, AsyncTableData.isError = True,
                     AsyncTableData.error = Some (message e), AsyncTableData.data = None\<rparr>)
      else (case query_result.data q of
              None \<Rightarrow> Inl TypeError
            | Some d \<Rightarrow>
                Inr \<lparr>AsyncTableData.isLoading = False, AsyncTableData.isError = False,
                     AsyncTableData.error = None,
                     AsyncTableData.data = Some (map (convertToTableRow host) (scores d))\<rparr>))"

definition pagination :: "address \<Rightarrow> query_result \<Rightarrow> pagination_props" where
  "pagination addr q =
     \<lparr>pageCount = Math_ceil (divide_int (totalCount q) (pageSize (paginationState addr))),
      state = paginationState addr\<rparr>"

text \<open>The component. \<open>useQuery\<close> is the query hook, which gives the current result for
  a request; \<open>filterOptions\<close> is the data of the filter-options query. The visibility of
  columns is passed through from its own hook and is left out.\<close>

definition ScoresTable ::
  "js_host \<Rightarrow> ('o option \<Rightarrow> 'c ColumnDefinition_scheme list) \<Rightarrow> (fetch_request \<Rightarrow> query_result)
     \<Rightarrow> 'o option \<Rightarrow> props \<Rightarrow> address \<Rightarrow> js_error + 'c rendering" where
  "ScoresTable host scoresTableColsWithOptions useQuery filterOptions p addr =
     (let q = useQuery (scores_query p addr)
      in case tableData host q of
           Inl e \<Rightarrow> Inl e
         | Inr d \<Rightarrow>
             Inr \<lparr>query = scores_query p addr,
                  toolbar =
                    \<lparr>toolbar_columns = columns host (props.projectId p),
                     toolbar_filterColumnDefinition =
                       transformFilterOptions scoresTableColsWithOptions p filterOptions,
                     toolbar_filterState = userFilterState addr\<rparr>,
                  table =
                    \<lparr>table_columns = columns host (props.projectId p),
                     table_data = d,
                     table_pagination = pagination addr q,
                     table_orderBy = orderByState addr\<rparr>\<rparr>)"

section \<open>Predicates used in the statements\<close>

text \<open>The finite doubles: \<open>m * 2^e\<close> with a significand below \<open>2^53\<close> and an exponent
  from \<open>-1074\<close> to \<open>971\<close>.\<close>

definition is_double :: "real \<Rightarrow> bool" where
  "is_double x =
     (\<exists>m :: int. \<exists>e :: nat. \<bar>m\<bar> < 2 ^ 53 \<and>
        ((e \<le> 971 \<and> x = of_int m * 2 ^ e) \<or> (e \<le> 1074 \<and> x = of_int m / 2 ^ e)))"

definition isDigit :: "char \<Rightarrow> bool" where
  "isDigit c = (c \<in> set ''0123456789'')"

text \<open>The last four decimal digits of a natural number.\<close>

definition frac4 :: "nat \<Rightarrow> string" where
  "frac4 k = [digitChar (k div 1000 mod 10), digitChar (k div 100 mod 10),
              digitChar (k div 10 mod 10), digitChar (k mod 10)]"

text \<open>A fixed-point numeral with four decimals: an optional sign, at least one digit, a
  point, four digits.\<close>

definition fixed_point4 :: "string \<Rightarrow> bool" where
  "fixed_point4 s =
     (let t = (if take 1 s = ''-'' then drop 1 s else s);
          ip = take (length t - 5) t;
          fp = drop (length t - 5) t
      in 5 < length t \<and> list_all isDigit ip \<and> take 1 fp = ''.'' \<and> list_all isDigit (drop 1 fp))"

text \<open>A plain integer numeral: an optional sign and at least one digit, nothing else.\<close>

definition plain_integer :: "string \<Rightarrow> bool" where
  "plain_integer s =
     (let t = (if take 1 s = ''-'' then drop 1 s else s)
      in t \<noteq> [] \<and> list_all isDigit t)"

text \<open>The three states of the data prop of the table.\<close>

definition loading_state :: "AsyncTableData \<Rightarrow> bool" where
  "loading_state d =
     (AsyncTableData.isLoading d \<and> \<not> AsyncTableData.isError d
      \<and> AsyncTableData.error d = None \<and> AsyncTableData.data d = None)"

definition error_state :: "string \<Rightarrow> AsyncTableData \<Rightarrow> bool" where
  "error_state msg d =
     (\<not> AsyncTableData.isLoading d \<and> AsyncTableData.isError d
      \<and> AsyncTableData.error d = Some msg \<and> AsyncTableData.data d = None)"

definition success_state :: "ScoresTableRow list \<Rightarrow> AsyncTableData \<Rightarrow> bool" where
  "success_state rows d =
     (\<not> AsyncTableData.isLoading d \<and> \<not> AsyncTableData.isError d
      \<and> AsyncTableData.error d = None \<and> AsyncTableData.data d = Some rows)"

text \<open>What the type of the query result guarantees: a result that is not loading is in
  error and carries the error, or carries the data.\<close>

definition well_typed_result :: "query_result \<Rightarrow> bool" where
  "well_typed_result q =
     (query_result.isLoading q
      \<or> (query_result.isError q \<and> query_result.error q \<noteq> None)
      \<or> (\<not> query_result.isError q \<and> query_result.data q \<noteq> None))"

section \<open>Lemmas: digits and fixed-point numerals\<close>

lemma digitChar_isDigit: "d < 10 \<Longrightarrow> isDigit (digitChar d)"
proof -
  assume "d < 10"
  then have "d \<in> {0,1,2,3,4,5,6,7,8,9}" by auto
  then show ?thesis by (auto simp: isDigit_def digitChar_def)
qed

lemma digitChar_0: "digitChar 0 = CHR ''0''"
  by (simp add: digitChar_def)

lemma digits_lt10: "n < 10 \<Longrightarrow> digits n = [digitChar n]"
  by (simp add: digits.simps)

lemma digits_ge10: "10 \<le> n \<Longrightarrow> digits n = digits (n div 10) @ [digitChar (n mod 10)]"
  by (subst digits.simps) simp

lemma digits_all_digit: "list_all isDigit (digits n)"
proof (induction n rule: digits.induct)
  case (1 n)
  show ?case
  proof (cases "n < 10")
    case True
    then show ?thesis by (simp add: digits_lt10 digitChar_isDigit)
  next
    case False
    with 1 have "list_all isDigit (digits (n div 10))" by simp
    moreover have "isDigit (digitChar (n mod 10))" by (simp add: digitChar_isDigit)
    ultimately show ?thesis using False by (simp add: digits_ge10)
  qed
qed

lemma digits_nonempty: "digits n \<noteq> []"
  by (cases "n < 10") (simp_all add: digits_lt10 digits_ge10)

lemma digits_small: "digits 3 = ''3''" "digits 0 = ''0''"
  by (simp_all add: digits_lt10 digitChar_def)

lemma digits_ge10000:
  assumes "10000 \<le> n"
  shows "digits n = digits (n div 10000) @ frac4 n"
proof -
  have a: "10 \<le> n" "10 \<le> n div 10" "10 \<le> n div 100" "10 \<le> n div 1000"
    using assms by auto
  have d: "n div 10 div 10 = n div 100" "n div 100 div 10 = n div 1000"
    "n div 1000 div 10 = n div 10000"
    by (simp_all add: div_mult2_eq)
  have "digits n = digits (n div 10) @ [digitChar (n mod 10)]"
    using a(1) by (rule digits_ge10)
  also have "digits (n div 10) = digits (n div 100) @ [digitChar (n div 10 mod 10)]"
    using digits_ge10 [OF a(2)] by (simp add: d)
  also have "digits (n div 100) = digits (n div 1000) @ [digitChar (n div 100 mod 10)]"
    using digits_ge10 [OF a(3)] by (simp add: d)
  also have "digits (n div 1000) = digits (n div 10000) @ [digitChar (n div 1000 mod 10)]"
    using digits_ge10 [OF a(4)] by (simp add: d)
  finally show ?thesis by (simp add: frac4_def)
qed

lemma replicate_small:
  "replicate 4 c = [c, c, c, c]" "replicate 3 c = [c, c, c]" "replicate 2 c = [c, c]"
  "replicate 1 c = [c]"
  by (simp_all add: numeral_eq_Suc)

lemma digits_lt10000:
  assumes "n < 10000"
  shows "length (digits n) \<le> 4
         \<and> replicate (5 - length (digits n)) (CHR ''0'') @ digits n = ''0'' @ frac4 n"
proof -
  consider "n < 10" | "10 \<le> n" "n < 100" | "100 \<le> n" "n < 1000" | "1000 \<le> n" "n < 10000"
    using assms by linarith
  then show ?thesis
  proof cases
    case 1
    then have "digits n = [digitChar n]" by (rule digits_lt10)
    moreover have "n div 1000 = 0" "n div 100 = 0" "n div 10 = 0" "n mod 10 = n" using 1 by auto
    ultimately show ?thesis by (simp add: frac4_def digitChar_0 replicate_small)
  next
    case 2
    then have b: "n div 10 < 10" by auto
    have "digits n = [digitChar (n div 10), digitChar (n mod 10)]"
      using digits_ge10 [OF 2(1)] digits_lt10 [OF b] by simp
    moreover have "n div 1000 = 0" "n div 100 = 0" "n div 10 mod 10 = n div 10" using 2 by auto
    ultimately show ?thesis by (simp add: frac4_def digitChar_0 replicate_small)
  next
    case 3
    then have b: "10 \<le> n" "10 \<le> n div 10" "n div 100 < 10" by auto
    have d: "n div 10 div 10 = n div 100" by (simp add: div_mult2_eq)
    have "digits n = [digitChar (n div 100), digitChar (n div 10 mod 10), digitChar (n mod 10)]"
      using digits_ge10 [OF b(1)] digits_ge10 [OF b(2)] digits_lt10 [OF b(3)] by (simp add: d)
    moreover have "n div 1000 = 0" "n div 100 mod 10 = n div 100" using 3 by auto
    ultimately show ?thesis by (simp add: frac4_def digitChar_0 replicate_small)
  next
    case 4
    then have b: "10 \<le> n" "10 \<le> n div 10" "10 \<le> n div 100" "n div 1000 < 10" by auto
    have d: "n div 10 div 10 = n div 100" "n div 100 div 10 = n div 1000"
      by (simp_all add: div_mult2_eq)
    have "digits n = [digitChar (n div 1000), digitChar (n div 100 mod 10),
                      digitChar (n div 10 mod 10), digitChar (n mod 10)]"
      using digits_ge10 [OF b(1)] digits_ge10 [OF b(2)] digits_ge10 [OF b(3)]
        digits_lt10 [OF b(4)] by (simp add: d)
    moreover have "n div 1000 mod 10 = n div 1000" using 4 by auto
    ultimately show ?thesis by (simp add: frac4_def replicate_small)
  qed
qed

lemma frac4_digits: "list_all isDigit (frac4 n)" "length (frac4 n) = 4"
  by (simp_all add: frac4_def digitChar_isDigit)

lemma fixedDigits_4:
  "fixedDigits 4 x =
     (let n = nat \<lfloor>x * 10 ^ 4 + 1 / 2\<rfloor> in digits (n div 10000) @ ''.'' @ frac4 n)"
proof -
  define n where "n = nat \<lfloor>x * 10 ^ 4 + 1 / 2\<rfloor>"
  have "fixedDigits 4 x = digits (n div 10000) @ ''.'' @ frac4 n"
  proof (cases "n < 10000")
    case True
    from digits_lt10000 [OF True] have l: "length (digits n) \<le> 4"
      and e: "replicate (5 - length (digits n)) (CHR ''0'') @ digits n = ''0'' @ frac4 n"
      by simp_all
    have z: "n div 10000 = 0" using True by simp
    have "digits 0 = ''0''" by (simp add: digits_lt10 digitChar_def)
    then show ?thesis
      using l e unfolding fixedDigits_def n_def [symmetric] Let_def
      by (simp add: z frac4_def)
  next
    case False
    then have g: "10000 \<le> n" by simp
    have l: "length (frac4 n) = 4" by (simp add: frac4_def)
    have ne: "digits (n div 10000) \<noteq> []" by (rule digits_nonempty)
    then have "0 < length (digits (n div 10000))" by simp
    then show ?thesis
      unfolding fixedDigits_def n_def [symmetric] Let_def digits_ge10000 [OF g]
      using l by simp
  qed
  then show ?thesis by (simp add: n_def Let_def)
qed

lemma fixed_point4_shape:
  assumes "list_all isDigit ip" and "ip \<noteq> []" and "list_all isDigit fp" and "length fp = 4"
  shows "fixed_point4 (ip @ ''.'' @ fp)" "fixed_point4 (''-'' @ ip @ ''.'' @ fp)"
proof -
  have h: "hd ip \<noteq> CHR ''-''" 
    using assms(1,2) by (cases ip) (auto simp: isDigit_def)
  have t1: "take 1 (ip @ ''.'' @ fp) \<noteq> ''-''"
    using assms(2) h by (cases ip) auto
  show "fixed_point4 (ip @ ''.'' @ fp)"
    unfolding fixed_point4_def Let_def using t1 assms by simp
  show "fixed_point4 (''-'' @ ip @ ''.'' @ fp)"
    unfolding fixed_point4_def Let_def using assms by simp
qed

lemma digits_length_le: "n < 10 ^ Suc k \<Longrightarrow> length (digits n) \<le> Suc k"
proof (induction k arbitrary: n)
  case 0
  then show ?case by (simp add: digits_lt10)
next
  case (Suc k)
  show ?case
  proof (cases "n < 10")
    case True
    then show ?thesis by (simp add: digits_lt10)
  next
    case False
    then have g: "10 \<le> n" by simp
    have "n div 10 < 10 ^ Suc k"
      using Suc.prems by (simp add: less_mult_imp_div_less mult.commute)
    then have "length (digits (n div 10)) \<le> Suc k" by (rule Suc.IH)
    then show ?thesis by (simp add: digits_ge10 [OF g])
  qed
qed

section \<open>Lemmas: rounding to a double\<close>

lemma bit_length_bounds:
  "0 < n \<Longrightarrow> 2 ^ (bit_length n - 1) \<le> n \<and> n < 2 ^ bit_length n"
proof (induction n rule: bit_length.induct)
  case (1 n)
  show ?case
  proof (cases "n div 2 = 0")
    case True
    with 1(2) have "n = 1" by (auto simp: div_eq_0_iff)
    then show ?thesis by (simp add: bit_length.simps)
  next
    case False
    then have pos: "0 < n div 2" by simp
    from 1(1) [OF _ pos] 1(2)
    have ih: "2 ^ (bit_length (n div 2) - 1) \<le> n div 2" "n div 2 < 2 ^ bit_length (n div 2)"
      by simp_all
    have bl: "bit_length n = Suc (bit_length (n div 2))"
      using 1(2) by (subst bit_length.simps) simp
    have ge1: "0 < bit_length (n div 2)"
      using pos by (subst bit_length.simps) simp
    then have e: "bit_length n - 1 = Suc (bit_length (n div 2) - 1)" using bl by simp
    have "2 ^ (bit_length n - 1) = 2 * 2 ^ (bit_length (n div 2) - 1)"
      unfolding e by simp
    also have "\<dots> \<le> 2 * (n div 2)" using ih(1) by simp
    also have "\<dots> \<le> n" by simp
    finally have lo: "2 ^ (bit_length n - 1) \<le> n" .
    have "n < 2 * (n div 2) + 2" by presburger
    also have "\<dots> \<le> 2 * 2 ^ bit_length (n div 2)" using ih(2) by simp
    also have "\<dots> = 2 ^ bit_length n" by (simp add: bl)
    finally show ?thesis using lo by simp
  qed
qed

lemma pow2_pos: "0 < pow2 e"
  by (simp add: pow2_def)

lemma pow2_add: "pow2 (a + b) = pow2 a * pow2 b"
proof -
  have "pow2 e = 2 powi e" for e
    by (simp add: pow2_def power_int_def field_simps)
  then show ?thesis by (simp add: power_int_add)
qed

lemma pow2_nat: "pow2 (int n) = 2 ^ n"
  by (simp add: pow2_def)

lemma pow2_neg: "pow2 (- int n) = 1 / 2 ^ n"
  by (auto simp: pow2_def)

lemma pow2_mono: "a \<le> b \<Longrightarrow> pow2 a \<le> pow2 b"
proof -
  assume "a \<le> b"
  then obtain n where b: "b = a + int n" by (metis zle_iff_zadd)
  have "(1::real) \<le> 2 ^ n" by simp
  then have "pow2 a * 1 \<le> pow2 a * 2 ^ n"
    using pow2_pos [of a] by (simp only: mult_le_cancel_left_pos)
  then show ?thesis by (simp add: b pow2_add pow2_nat)
qed

lemma binade_le:
  assumes "0 < x"
  shows "pow2 (binade x) \<le> x"
proof (cases "1 \<le> x")
  case True
  then have f: "1 \<le> \<lfloor>x\<rfloor>" by simp
  let ?n = "nat \<lfloor>x\<rfloor>"
  have n: "0 < ?n" using f by simp
  from bit_length_bounds [OF n] have "2 ^ (bit_length ?n - 1) \<le> ?n" by simp
  then have "(2::real) ^ (bit_length ?n - 1) \<le> real ?n"
    by (metis of_nat_le_iff of_nat_numeral of_nat_power)
  also have "real ?n = of_int \<lfloor>x\<rfloor>" using f by simp
  also have "\<dots> \<le> x" by simp
  finally have le: "(2::real) ^ (bit_length ?n - 1) \<le> x" .
  have bl: "0 < bit_length ?n" using n by (subst bit_length.simps) simp
  then have e: "int (bit_length ?n - 1) = int (bit_length ?n) - 1" by simp
  have "binade x = int (bit_length ?n) - 1" using True by (simp add: binade_def)
  then have "pow2 (binade x) = 2 ^ (bit_length ?n - 1)"
    by (simp only: e [symmetric] pow2_nat)
  then show ?thesis using le by simp
next
  case False
  then have x1: "x < 1" by simp
  then have inv: "1 < 1 / x" using assms by simp
  define k where "k = \<lceil>1 / x\<rceil>"
  define m where "m = nat (k - 1)"
  have c: "2 \<le> k" unfolding k_def using inv by linarith
  then have m: "0 < m" and sm: "int (Suc m) = k" by (simp_all add: m_def)
  from bit_length_bounds [OF m] have "m < 2 ^ bit_length m" by simp
  then have "Suc m \<le> 2 ^ bit_length m" by (simp only: Suc_le_eq)
  then have "real (Suc m) \<le> 2 ^ bit_length m"
    by (metis of_nat_le_iff of_nat_numeral of_nat_power)
  moreover have "real (Suc m) = of_int k"
    using sm by (metis of_int_of_nat_eq)
  moreover have "1 / x \<le> of_int k" unfolding k_def by (rule le_of_int_ceiling)
  ultimately have "1 / x \<le> 2 ^ bit_length m" by linarith
  then have "1 \<le> 2 ^ bit_length m * x"
    using assms by (simp add: pos_divide_le_eq)
  then have "1 / 2 ^ bit_length m \<le> x"
    by (simp add: pos_divide_le_eq mult.commute)
  moreover have "binade x = - int (bit_length m)"
    using False by (simp add: binade_def m_def k_def)
  ultimately show ?thesis by (simp only: pow2_neg)
qed

lemma round_half_even_near: "\<bar>of_int (round_half_even r) - r\<bar> \<le> 1 / 2"
  unfolding round_half_even_def Let_def by (auto simp: abs_le_iff)

lemma round_half_even_int: "round_half_even (of_int k) = k"
  by (simp add: round_half_even_def)

lemma round_half_even_ge: "of_int k \<le> r \<Longrightarrow> k \<le> round_half_even r"
proof -
  assume "of_int k \<le> r"
  then have "k \<le> \<lfloor>r\<rfloor>" by (simp add: le_floor_iff)
  then show ?thesis unfolding round_half_even_def Let_def by auto
qed

lemma round_double_pos:
  "0 < x \<Longrightarrow> round_double x = of_int (round_half_even (x / ulp x)) * ulp x"
  by (simp add: round_double_def)

lemma ulp_pos: "0 < ulp x"
  by (simp add: ulp_def pow2_pos)

lemma pow2_52: "pow2 (e - 52) = pow2 e / 2 ^ 52"
proof -
  have "pow2 (e + (- 52)) = pow2 e * pow2 (- 52)" by (rule pow2_add)
  moreover have "pow2 (- 52) = 1 / 2 ^ 52" by (simp add: pow2_def)
  ultimately show ?thesis by simp
qed

lemma pow2_max_le:
  assumes "pow2 (- 1022) \<le> x"
  shows "pow2 (max (binade x) (- 1022)) \<le> x"
proof -
  have "0 < x" using assms pow2_pos [of "- 1022"] by linarith
  then have "pow2 (binade x) \<le> x" by (rule binade_le)
  then show ?thesis using assms by (simp add: max_def)
qed

lemma ulp_le:
  assumes "pow2 (- 1022) \<le> x"
  shows "ulp x \<le> x / 2 ^ 52"
proof -
  have x: "0 < x" using assms pow2_pos [of "- 1022"] by linarith
  have "ulp x = pow2 (max (binade x) (- 1022)) / 2 ^ 52"
    using x by (simp add: ulp_def pow2_52)
  also have "\<dots> \<le> x / 2 ^ 52"
    using pow2_max_le [OF assms] by (simp add: divide_right_mono)
  finally show ?thesis .
qed

lemma round_double_error:
  assumes "0 < x"
  shows "\<bar>round_double x - x\<bar> \<le> ulp x / 2"
proof -
  let ?u = "ulp x"
  let ?n = "round_half_even (x / ?u)"
  have u: "0 < ?u" by (rule ulp_pos)
  have "round_double x - x = (of_int ?n - x / ?u) * ?u"
    using u by (simp add: round_double_pos [OF assms] field_simps)
  then have "\<bar>round_double x - x\<bar> = \<bar>of_int ?n - x / ?u\<bar> * ?u"
    using u by (simp add: abs_mult)
  also have "\<dots> \<le> (1 / 2) * ?u"
    using round_half_even_near [of "x / ?u"] u by (simp only: mult_right_mono less_imp_le)
  finally show ?thesis by simp
qed

lemma pow2_less_imp: "pow2 a < pow2 b \<Longrightarrow> a < b"
  using pow2_mono [of b a] by (cases "a < b") simp_all

lemma small_one: "pow2 (- 1022) \<le> 1"
  by (simp add: pow2_def)

lemma round_double_int:
  assumes "0 \<le> k" and "k < 2 ^ 53"
  shows "round_double (of_int k) = of_int k"
proof (cases "k = 0")
  case True
  then show ?thesis by (simp add: round_double_def)
next
  case False
  with assms have k1: "1 \<le> k" by simp
  let ?x = "real_of_int k"
  have x1: "1 \<le> ?x" using k1 by simp
  have x: "0 < ?x" using k1 by simp
  define e where "e = max (binade ?x) (- 1022)"
  have "pow2 e \<le> ?x"
    unfolding e_def using small_one x1 by (intro pow2_max_le) linarith
  also have "?x < 2 ^ 53" using assms(2) by (metis of_int_less_numeral_power_cancel_iff)
  also have "(2::real) ^ 53 = pow2 53" by (simp add: pow2_def)
  finally have "e < 53" by (rule pow2_less_imp)
  then have "e - 52 \<le> 0" by simp
  then obtain j :: nat where j: "e - 52 = - int j"
    by (metis nonpos_int_cases)
  have u: "ulp ?x = 1 / 2 ^ j"
    using x by (simp add: ulp_def e_def [symmetric] j pow2_neg)
  have "?x / ulp ?x = of_int (k * 2 ^ j)" by (simp add: u)
  then have "round_half_even (?x / ulp ?x) = k * 2 ^ j"
    by (simp only: round_half_even_int)
  then show ?thesis
    by (simp add: round_double_pos [OF x] u)
qed

lemma round_double_large:
  assumes "2 ^ 53 \<le> y"
  shows "2 ^ 53 \<le> round_double y"
proof -
  have "(0::real) < 2 ^ 53" by simp
  with assms have y: "0 < y" by linarith
  have y1: "pow2 (- 1022) \<le> y"
  proof -
    have "(1::real) \<le> 2 ^ 53" by simp
    with small_one assms show ?thesis by linarith
  qed
  define e where "e = max (binade y) (- 1022)"
  have pe: "pow2 e \<le> y" unfolding e_def using y1 by (rule pow2_max_le)
  have u: "ulp y = pow2 (e - 52)" using y by (simp add: ulp_def e_def)
  have up: "0 < ulp y" by (rule ulp_pos)
  let ?n = "round_half_even (y / ulp y)"
  show ?thesis
  proof (cases "53 \<le> e")
    case True
    have "pow2 e / ulp y = 2 ^ 52" using pow2_pos [of e] by (simp add: u pow2_52)
    moreover have "pow2 e / ulp y \<le> y / ulp y"
      using pe up by (simp add: divide_right_mono)
    ultimately have "of_int (2 ^ 52) \<le> y / ulp y" by simp
    then have "2 ^ 52 \<le> ?n" by (rule round_half_even_ge)
    then have "(2::real) ^ 52 \<le> of_int ?n"
      by (metis of_int_le_iff of_int_numeral of_int_power)
    then have "2 ^ 52 * ulp y \<le> of_int ?n * ulp y"
      using up by (simp only: mult_le_cancel_right_pos)
    moreover have "2 ^ 52 * ulp y = pow2 e" by (simp add: u pow2_52)
    moreover have "pow2 53 \<le> pow2 e" using True by (rule pow2_mono)
    moreover have "pow2 53 = 2 ^ 53" by (simp add: pow2_def)
    ultimately show ?thesis by (simp add: round_double_pos [OF y])
  next
    case False
    then have "e - 52 \<le> 0" by simp
    then obtain j :: nat where j: "e - 52 = - int j"
      by (metis nonpos_int_cases)
    have uj: "ulp y = 1 / 2 ^ j" by (simp add: u j pow2_neg)
    have "of_int (2 ^ 53 * 2 ^ j) \<le> y * 2 ^ j" using assms by simp
    then have "of_int (2 ^ 53 * 2 ^ j) \<le> y / ulp y" by (simp add: uj)
    then have "2 ^ 53 * 2 ^ j \<le> ?n" by (rule round_half_even_ge)
    then have "real_of_int (2 ^ 53 * 2 ^ j) \<le> of_int ?n" by (simp only: of_int_le_iff)
    then have "2 ^ 53 * 2 ^ j \<le> real_of_int ?n" by simp
    then have "2 ^ 53 \<le> real_of_int ?n / 2 ^ j"
      by (simp add: pos_le_divide_eq)
    then show ?thesis by (simp add: round_double_pos [OF y] uj)
  qed
qed

lemma ceiling_round_double_quotient:
  fixes a b :: int
  assumes a: "0 < a" "a < 2 ^ 53" and b: "0 < b" "b < 2 ^ 53"
  shows "\<lceil>round_double (real_of_int a / real_of_int b)\<rceil> = \<lceil>real_of_int a / real_of_int b\<rceil>"
    and "\<bar>round_double (real_of_int a / real_of_int b)\<bar> < 2 ^ 1024"
proof -
  let ?q = "real_of_int a / real_of_int b"
  let ?fl = "round_double ?q"
  define k where "k = a div b"
  define r where "r = a mod b"
  have rb: "0 \<le> r" "r < b" using b(1) by (simp_all add: r_def)
  have ab: "a = k * b + r" by (simp add: k_def r_def)
  have k0: "0 \<le> k" using a(1) b(1) by (simp add: k_def pos_imp_zdiv_nonneg_iff)
  have ka: "k \<le> a"
  proof -
    have "k * 1 \<le> k * b" using k0 b(1) by (intro mult_left_mono) simp_all
    with ab rb(1) show ?thesis by simp
  qed
  have br: "0 < real_of_int b" using b(1) by simp
  have q: "?q = of_int k + of_int r / of_int b"
    using br by (simp add: ab field_simps)
  have both: "\<lceil>?fl\<rceil> = \<lceil>?q\<rceil> \<and> \<bar>?fl\<bar> < 2 ^ 1024"
  proof (cases "r = 0")
    case True
    then have qk: "?q = of_int k" by (simp add: q)
    have "k < 2 ^ 53" using ka a(2) by simp
    then have "round_double (of_int k) = of_int k" using k0 by (intro round_double_int)
    moreover have "\<bar>real_of_int k\<bar> < 2 ^ 53"
      using k0 \<open>k < 2 ^ 53\<close> by (metis abs_of_nonneg of_int_0_le_iff
          of_int_less_numeral_power_cancel_iff)
    moreover have "(2::real) ^ 53 \<le> 2 ^ 1024" by (intro power_increasing) simp_all
    ultimately show ?thesis unfolding qk by (simp del: power_increasing_iff)
  next
    case False
    then have r1: "1 \<le> r" using rb(1) by simp
    have r2: "1 \<le> b - r" using rb(2) by simp
    have lo: "of_int k + 1 / of_int b \<le> ?q"
    proof -
      have "1 / real_of_int b \<le> of_int r / of_int b"
        using r1 br by (intro divide_right_mono) simp_all
      then show ?thesis by (simp add: q)
    qed
    have hi: "?q \<le> of_int (k + 1) - 1 / of_int b"
    proof -
      define d where "d = b - r"
      have "1 \<le> d" using r2 by (simp add: d_def)
      then have "(1::real) \<le> of_int d" by simp
      then have "1 / real_of_int b \<le> of_int d / of_int b"
        using br by (intro divide_right_mono) simp_all
      also have "\<dots> = 1 - of_int r / of_int b" using br by (simp add: d_def field_simps)
      finally show ?thesis by (simp add: q)
    qed
    have qpos: "0 < ?q" using a(1) br by simp
    have qb: "1 / real_of_int b \<le> ?q" using lo k0
    proof -
      have "0 \<le> real_of_int k" using k0 by simp
      with lo show ?thesis by linarith
    qed
    have bsmall: "real_of_int b < 2 ^ 53"
      using b(2) by (metis of_int_less_numeral_power_cancel_iff)
    have asmall: "real_of_int a < 2 ^ 53"
      using a(2) by (metis of_int_less_numeral_power_cancel_iff)
    have inv: "1 / 2 ^ 53 < 1 / real_of_int b"
      using bsmall br by (simp add: frac_less2)
    have "pow2 (- 1022) \<le> 1 / 2 ^ 53" by (simp add: pow2_def field_simps)
    with inv qb have norm: "pow2 (- 1022) \<le> ?q" by linarith
    have "\<bar>?fl - ?q\<bar> \<le> ulp ?q / 2" using qpos by (rule round_double_error)
    also have "\<dots> \<le> (?q / 2 ^ 52) / 2" using ulp_le [OF norm] by simp
    also have "\<dots> = ?q / 2 ^ 53" by simp
    also have "\<dots> < 1 / real_of_int b"
    proof -
      have "?q / 2 ^ 53 = (real_of_int a / 2 ^ 53) / real_of_int b" by simp
      also have "\<dots> < 1 / real_of_int b"
        using asmall br by (intro divide_strict_right_mono) simp_all
      finally show ?thesis .
    qed
    finally have err: "\<bar>?fl - ?q\<bar> < 1 / real_of_int b" .
    have ibpos: "0 < 1 / real_of_int b" using br by simp
    have k1: "real_of_int (k + 1) = real_of_int k + 1" by simp
    have e1: "?q - 1 / real_of_int b < ?fl" and e2: "?fl < ?q + 1 / real_of_int b"
      using err by (simp_all only: abs_less_iff) linarith+
    have c1: "of_int (k + 1) - 1 < ?fl" using e1 lo k1 by linarith
    have c2: "?fl < of_int (k + 1)" using e2 hi by linarith
    have cq1: "of_int (k + 1) - 1 < ?q" using lo ibpos k1 by linarith
    have cq2: "?q \<le> of_int (k + 1)" using hi ibpos by linarith
    have "\<lceil>?fl\<rceil> = k + 1" using c1 c2 by (intro ceiling_unique) linarith+
    moreover have "\<lceil>?q\<rceil> = k + 1" using cq1 cq2 by (rule ceiling_unique)
    moreover have "\<bar>?fl\<bar> < 2 ^ 1024"
    proof -
      have "real_of_int (k + 1) \<le> real_of_int a"
      proof -
        have "k * 1 \<le> k * b" using k0 b(1) by (intro mult_left_mono) simp_all
        with ab r1 have "k + 1 \<le> a" by simp
        then show ?thesis by (simp only: of_int_le_iff)
      qed
      with c2 asmall have "?fl < 2 ^ 53" by linarith
      moreover have "0 \<le> real_of_int k" using k0 by simp
      with c1 k1 have "0 < ?fl" by linarith
      moreover have "(2::real) ^ 53 \<le> 2 ^ 1024" by (intro power_increasing) simp_all
      ultimately show ?thesis by (simp only: abs_of_pos)
    qed
    ultimately show ?thesis by simp
  qed
  from both show "\<lceil>?fl\<rceil> = \<lceil>?q\<rceil>" and "\<bar>?fl\<bar> < 2 ^ 1024" by simp_all
qed

lemma round_half_even_le: "r \<le> of_int k \<Longrightarrow> round_half_even r \<le> k"
proof -
  assume a: "r \<le> of_int k"
  then have f: "\<lfloor>r\<rfloor> \<le> k" by (simp add: floor_le_iff)
  show ?thesis
  proof (cases "\<lfloor>r\<rfloor> = k")
    case True
    then have "r = of_int \<lfloor>r\<rfloor>" using a by linarith
    then have "r - of_int \<lfloor>r\<rfloor> = 0" by simp
    then show ?thesis using True unfolding round_half_even_def Let_def by simp
  next
    case False
    with f have "\<lfloor>r\<rfloor> + 1 \<le> k" by simp
    then show ?thesis unfolding round_half_even_def Let_def by auto
  qed
qed

lemma ulp_le_self:
  assumes "pow2 (- 1074) \<le> q"
  shows "ulp q \<le> q"
proof (cases "pow2 (- 1022) \<le> q")
  case True
  then have q: "0 < q" using pow2_pos [of "- 1022"] by linarith
  have "ulp q \<le> q / 2 ^ 52" using True by (rule ulp_le)
  also have "\<dots> \<le> q / 1" using q by (intro divide_left_mono) simp_all
  finally show ?thesis by simp
next
  case False
  have q: "0 < q" using assms pow2_pos [of "- 1074"] by linarith
  have "pow2 (binade q) \<le> q" using q by (rule binade_le)
  with False have "pow2 (binade q) < pow2 (- 1022)" by linarith
  then have "binade q < - 1022" by (rule pow2_less_imp)
  then have "ulp q = pow2 (- 1074)" using q by (simp add: ulp_def max_def)
  then show ?thesis using assms by simp
qed

lemma round_double_unit:
  assumes "pow2 (- 1074) \<le> q" and "q < 1"
  shows "0 < round_double q" and "round_double q \<le> 1"
proof -
  have q: "0 < q" using assms(1) pow2_pos [of "- 1074"] by linarith
  have up: "0 < ulp q" by (rule ulp_pos)
  let ?n = "round_half_even (q / ulp q)"
  have rd: "round_double q = of_int ?n * ulp q" using q by (rule round_double_pos)
  have "ulp q \<le> q" using assms(1) by (rule ulp_le_self)
  then have "of_int 1 \<le> q / ulp q" using up by (simp add: pos_le_divide_eq)
  then have "1 \<le> ?n" by (rule round_half_even_ge)
  then have "0 < real_of_int ?n" by simp
  then show "0 < round_double q" using up by (simp add: rd)
  define e where "e = max (binade q) (- 1022)"
  have u: "ulp q = pow2 (e - 52)" using q by (simp add: ulp_def e_def)
  have "pow2 (binade q) \<le> q" using q by (rule binade_le)
  also have "q < pow2 0" using assms(2) by (simp add: pow2_def)
  finally have "binade q < 0" by (rule pow2_less_imp)
  then have "e - 52 \<le> 0" by (simp add: e_def)
  then obtain j :: nat where j: "e - 52 = - int j" by (metis nonpos_int_cases)
  have uj: "ulp q = 1 / 2 ^ j" by (simp add: u j pow2_neg)
  have "q * 2 ^ j \<le> 1 * 2 ^ j" using assms(2) by (intro mult_right_mono) simp_all
  then have "q / ulp q \<le> of_int (2 ^ j)" by (simp add: uj)
  then have "?n \<le> 2 ^ j" by (rule round_half_even_le)
  then have "real_of_int ?n \<le> of_int (2 ^ j)" by (simp only: of_int_le_iff)
  then have "real_of_int ?n \<le> 2 ^ j" by simp
  then have "real_of_int ?n / 2 ^ j \<le> 1" by (simp add: pos_divide_le_eq)
  then show "round_double q \<le> 1" by (simp add: rd uj)
qed

lemma ceiling_round_double_small:
  fixes a b :: int
  assumes a: "0 < a" "a < b" and b: "b < 2 ^ 1024"
  shows "\<lceil>round_double (real_of_int a / real_of_int b)\<rceil> = \<lceil>real_of_int a / real_of_int b\<rceil>"
    and "\<bar>round_double (real_of_int a / real_of_int b)\<bar> < 2 ^ 1024"
proof -
  define q where "q = real_of_int a / real_of_int b"
  have bp: "0 < real_of_int b" using a by simp
  have q0: "0 < q" unfolding q_def using a by simp
  have q1: "q < 1" unfolding q_def using a by simp
  have "real_of_int b < 2 ^ 1024" using b by (metis of_int_less_numeral_power_cancel_iff)
  then have "1 / 2 ^ 1024 < 1 / real_of_int b" using bp by (simp add: divide_strict_left_mono)
  also have "\<dots> \<le> q"
    unfolding q_def using a bp by (intro divide_right_mono) simp_all
  finally have "pow2 (- 1024) \<le> q" by (simp add: pow2_def)
  moreover have "pow2 (- 1074) \<le> pow2 (- 1024)" by (rule pow2_mono) simp
  ultimately have lo: "pow2 (- 1074) \<le> q" by linarith
  have r0: "0 < round_double q" using lo q1 by (rule round_double_unit(1))
  have r1: "round_double q \<le> 1" using lo q1 by (rule round_double_unit(2))
  have "\<lceil>round_double q\<rceil> = 1" using r0 r1 by (simp add: ceiling_eq_iff)
  moreover have "\<lceil>q\<rceil> = 1" using q0 q1 by (simp add: ceiling_eq_iff)
  ultimately show "\<lceil>round_double (real_of_int a / real_of_int b)\<rceil>
      = \<lceil>real_of_int a / real_of_int b\<rceil>"
    by (simp only: q_def)
  have "(1::real) < 2 ^ 1024" by (simp del: power_increasing_iff add: one_less_power)
  then show "\<bar>round_double (real_of_int a / real_of_int b)\<bar> < 2 ^ 1024"
    using r0 r1 unfolding q_def by linarith
qed

lemma round_double_nat:
  assumes "n < 2 ^ 53"
  shows "round_double (real n) = real n"
proof -
  have "int n < 2 ^ 53" using assms by (metis of_nat_less_numeral_power_cancel_iff)
  then have "round_double (of_int (int n)) = of_int (int n)"
    by (intro round_double_int) simp_all
  then show ?thesis by simp
qed

lemma round_double_above:
  assumes "x < 2 ^ 53" and "x < y"
  shows "round_double (real y) \<noteq> real x"
proof (cases "y < 2 ^ 53")
  case True
  then show ?thesis using assms(2) by (simp add: round_double_nat)
next
  case False
  then have "2 ^ 53 \<le> y" by simp
  then have "(2::real) ^ 53 \<le> real y"
    by (metis of_nat_le_iff of_nat_numeral of_nat_power)
  then have "2 ^ 53 \<le> round_double (real y)" by (rule round_double_large)
  moreover have "real x < 2 ^ 53"
    using assms(1) by (metis of_nat_less_iff of_nat_numeral of_nat_power)
  ultimately show ?thesis by linarith
qed

lemma round_double_1e21: "round_double 1000000000000000000000 = 1000000000000000000000"
  by (simp add: round_double_def ulp_def binade_def bit_length.simps pow2_def
      round_half_even_def Let_def)

text \<open>With \<open>binade_le\<close>, the binary exponent of a positive number is the one of its
  binade.\<close>

lemma binade_less:
  assumes "0 < x"
  shows "x < pow2 (binade x + 1)"
proof (cases "1 \<le> x")
  case True
  then have f: "1 \<le> \<lfloor>x\<rfloor>" by simp
  define n where "n = nat \<lfloor>x\<rfloor>"
  have n: "0 < n" using f by (simp add: n_def)
  from bit_length_bounds [OF n] have "n < 2 ^ bit_length n" by simp
  then have "Suc n \<le> 2 ^ bit_length n" by (simp only: Suc_le_eq)
  then have "real (Suc n) \<le> 2 ^ bit_length n"
    by (metis of_nat_le_iff of_nat_numeral of_nat_power)
  moreover have "real (Suc n) = of_int \<lfloor>x\<rfloor> + 1" using f by (simp add: n_def)
  moreover have "x < of_int \<lfloor>x\<rfloor> + 1" by linarith
  ultimately have "x < 2 ^ bit_length n" by linarith
  moreover have "binade x + 1 = int (bit_length n)" using True by (simp add: binade_def n_def)
  ultimately show ?thesis by (simp only: pow2_nat)
next
  case False
  then have x1: "x < 1" by simp
  then have inv: "1 < 1 / x" using assms by simp
  define k where "k = \<lceil>1 / x\<rceil>"
  define m where "m = nat (k - 1)"
  have c: "2 \<le> k" unfolding k_def using inv by linarith
  then have m: "0 < m" and sm: "int m = k - 1" by (simp_all add: m_def)
  have bl: "0 < bit_length m" using m by (subst bit_length.simps) simp
  from bit_length_bounds [OF m] have "2 ^ (bit_length m - 1) \<le> m" by simp
  then have "(2::real) ^ (bit_length m - 1) \<le> real m"
    by (metis of_nat_le_iff of_nat_numeral of_nat_power)
  moreover have "real m = of_int k - 1" using sm by (metis of_int_of_nat_eq of_int_diff of_int_1)
  moreover have "of_int k - 1 < 1 / x" unfolding k_def by linarith
  ultimately have "2 ^ (bit_length m - 1) < 1 / x" by linarith
  then have "2 ^ (bit_length m - 1) * x < 1"
    using assms by (simp add: pos_less_divide_eq)
  then have "x < 1 / 2 ^ (bit_length m - 1)"
    by (simp add: pos_less_divide_eq mult.commute)
  moreover have "binade x + 1 = - int (bit_length m - 1)"
    using False bl by (simp add: binade_def m_def k_def)
  ultimately show ?thesis by (simp only: pow2_neg)
qed

text \<open>The doubles nearest to \<open>1/10\<close> and \<open>1/3\<close>, and two ties above \<open>2^53\<close>, where
  the doubles are the even integers.\<close>

lemma round_double_examples:
  "round_double (1 / 10) = 3602879701896397 / 36028797018963968"
  "round_double 9007199254740993 = 9007199254740992"
  "round_double 9007199254740995 = 9007199254740996"
  "round_double (1 / 3) = 6004799503160661 / 18014398509481984"
  by (simp_all add: round_double_def ulp_def binade_def bit_length.simps pow2_def
      round_half_even_def Let_def)

section \<open>Lemmas: the text of a number\<close>

lemma shortest_decimal_safe:
  assumes "x < 2 ^ 53"
  shows "shortest_decimal x j = x"
proof (induction j)
  case 0
  show ?case by simp
next
  case (Suc j)
  define p :: nat where "p = 10 ^ Suc j"
  define lo where "lo = (x div p) * p"
  define hi where "hi = lo + p"
  have p: "0 < p" by (simp add: p_def)
  have lo: "lo \<le> x" by (simp add: lo_def)
  have hi: "x < hi"
    unfolding hi_def lo_def using p
    by (metis add.commute div_mult_mod_eq add_strict_left_mono pos_mod_bound of_nat_0_less_iff
        mod_less_divisor)
  have "lo < 2 ^ 53" using lo assms by simp
  then have l: "round_double (real lo) = real x \<longleftrightarrow> lo = x"
    by (simp add: round_double_nat)
  have h: "round_double (real hi) \<noteq> real x"
    using assms hi by (rule round_double_above)
  have "shortest_decimal x (Suc j) = (if lo = x then lo else shortest_decimal x j)"
    using l h
    by (simp only: shortest_decimal.simps Let_def p_def [symmetric] lo_def [symmetric]
        hi_def [symmetric]) simp
  then show ?case using Suc.IH by simp
qed

lemma integer_toString_safe:
  assumes "x < 2 ^ 53"
  shows "integer_toString x = digits x"
proof -
  have "(2::nat) ^ 53 < 10 ^ Suc 20" by simp
  with assms have "x < 10 ^ Suc 20" by linarith
  then have "length (digits x) \<le> Suc 20" by (rule digits_length_le)
  then have "length (digits x) \<le> 21" by simp
  then show ?thesis
    by (simp add: integer_toString_def Let_def shortest_decimal_safe [OF assms])
qed

lemma Number_toString_safe:
  assumes "r \<in> \<int>" and "\<bar>r\<bar> < 2 ^ 53"
  shows "Number_toString host (Finite r) =
           (if r < 0 then ''-'' else []) @ digits (nat \<lfloor>\<bar>r\<bar>\<rfloor>)"
proof (cases "r = 0")
  case True
  then show ?thesis by (simp add: Number_toString_def digits_lt10 digitChar_def)
next
  case False
  from assms(1) obtain k where k: "r = of_int k" by (auto elim: Ints_cases)
  have i: "\<bar>r\<bar> = of_int \<lfloor>\<bar>r\<bar>\<rfloor>" by (simp add: k)
  have "real_of_int \<bar>k\<bar> < 2 ^ 53" using assms(2) by (simp add: k)
  then have "\<bar>k\<bar> < 2 ^ 53" by (metis of_int_less_numeral_power_cancel_iff)
  then have "nat \<bar>k\<bar> < 2 ^ 53" by (metis nat_less_numeral_power_cancel_iff)
  moreover have "\<lfloor>\<bar>real_of_int k\<bar>\<rfloor> = \<bar>k\<bar>" by (metis floor_of_int of_int_abs)
  ultimately have n: "nat \<lfloor>\<bar>r\<bar>\<rfloor> < 2 ^ 53" by (simp only: k)
  show ?thesis
    using False i by (simp add: Number_toString_def integer_toString_safe [OF n])
qed

lemma shortest_decimal_numeral:
  "shortest_decimal x (numeral n) =
     (let p = 10 ^ numeral n;
          lo = (x div p) * p;
          hi = lo + p;
          l = (round_double (real lo) = real x);
          h = (round_double (real hi) = real x)
      in if l \<and> h then
           (if hi - x < x - lo then hi
            else if x - lo < hi - x then lo
            else if even (x div p) then lo else hi)
         else if l then lo
         else if h then hi
         else shortest_decimal x (pred_numeral n))"
  by (metis numeral_eq_Suc shortest_decimal.simps(2))

lemma shortest_decimal_one:
  "shortest_decimal x (Suc 0) =
     (let p = 10;
          lo = (x div p) * p;
          hi = lo + p;
          l = (round_double (real lo) = real x);
          h = (round_double (real hi) = real x)
      in if l \<and> h then
           (if hi - x < x - lo then hi
            else if x - lo < hi - x then lo
            else if even (x div p) then lo else hi)
         else if l then lo
         else if h then hi
         else shortest_decimal x 0)"
  by (simp add: Let_def)

lemma toString_1e21: "integer_toString (10 ^ 21) = ''1e+21''"
proof -
  have d: "digits 1000000000000000000000 = ''1000000000000000000000''"
    by (simp add: digits.simps digitChar_def)
  have r1: "round_double 1000000000000000000000 = 1000000000000000000000"
    by (simp add: round_double_def ulp_def binade_def bit_length.simps pow2_def
        round_half_even_def Let_def)
  have r2: "round_double 2000000000000000000000 = 2000000000000000000000"
    by (simp add: round_double_def ulp_def binade_def bit_length.simps pow2_def
        round_half_even_def Let_def)
  have s: "shortest_decimal 1000000000000000000000 21 = 1000000000000000000000"
    by (subst shortest_decimal_numeral) (simp add: Let_def r1 r2)
  have e: "digits 21 = ''21''"
    by (simp add: digits.simps digitChar_def)
  have x: "(10::nat) ^ 21 = 1000000000000000000000" by simp
  have len: "length (digits 1000000000000000000000) - 1 = 21" by (simp add: d)
  have y: "shortest_decimal 1000000000000000000000
             (length (digits 1000000000000000000000) - 1) = 1000000000000000000000"
    by (simp only: len s)
  have l2: "length (digits 1000000000000000000000) = 22" by (simp add: d)
  show ?thesis
    unfolding integer_toString_def Let_def x
    unfolding y
    unfolding l2
    by (simp add: d e strip_zeros_def)
qed

lemma sd_above_safe: "shortest_decimal 18014398509482008 16 = 18014398509482010"
  by (simp add: shortest_decimal_numeral shortest_decimal_one Let_def round_double_def ulp_def
      binade_def bit_length.simps pow2_def round_half_even_def del: shortest_decimal.simps)

lemma next_multiple_le:
  fixes x p k :: nat
  assumes "0 < p" and "x < k * p"
  shows "(x div p) * p + p \<le> k * p"
proof -
  have "x div p < k" using assms by (simp add: div_less_iff_less_mult)
  then have "Suc (x div p) \<le> k" by simp
  then have "Suc (x div p) * p \<le> k * p" by (rule mult_le_mono1)
  then show ?thesis by simp
qed

lemma shortest_decimal_lt:
  assumes x: "x < 10 ^ 21"
  shows "j \<le> 21 \<Longrightarrow> shortest_decimal x j < 10 ^ 21"
proof (induction j)
  case 0
  show ?case using x by simp
next
  case (Suc j)
  define B :: nat where "B = 10 ^ 21"
  define p :: nat where "p = 10 ^ Suc j"
  define lo where "lo = (x div p) * p"
  define hi where "hi = lo + p"
  have xB: "x < B" using x by (simp add: B_def)
  have p: "0 < p" by (simp add: p_def)
  have lo: "lo \<le> x" by (simp add: lo_def)
  have "(10::nat) ^ 21 = 10 ^ (21 - Suc j) * 10 ^ Suc j"
    using Suc.prems by (simp only: power_add [symmetric]) simp
  then have Bp: "B = 10 ^ (21 - Suc j) * p" by (simp only: B_def p_def)
  have hiB: "hi \<le> B"
    unfolding hi_def lo_def Bp using p xB [unfolded Bp] by (rule next_multiple_le)
  have hi: "hi < B" if h: "round_double (real hi) = real x"
  proof (rule ccontr)
    assume "\<not> hi < B"
    with hiB have "hi = B" by simp
    then have "real hi = 1000000000000000000000" by (simp add: B_def)
    then have "round_double (real hi) = 1000000000000000000000"
      by (simp only: round_double_1e21)
    with h have "real x = 1000000000000000000000" by simp
    then have "real x = real B" by (simp add: B_def)
    then have "x = B" by (simp only: of_nat_eq_iff)
    with xB show False by simp
  qed
  have ih: "shortest_decimal x j < B" using Suc.IH Suc.prems by (simp add: B_def)
  have loB: "lo < B" using lo xB by simp
  have "shortest_decimal x (Suc j) < B"
    using hi ih loB
    by (simp only: shortest_decimal.simps Let_def p_def [symmetric] lo_def [symmetric]
        hi_def [symmetric]) (simp split: if_splits)
  then show ?case by (simp only: B_def)
qed

lemma integer_toString_plain:
  assumes "x < 10 ^ 21"
  shows "\<exists>y. integer_toString x = digits y"
proof -
  have "x < 10 ^ Suc 20" using assms by simp
  then have "length (digits x) \<le> Suc 20" by (rule digits_length_le)
  then have j: "length (digits x) - 1 \<le> 21" by simp
  define y where "y = shortest_decimal x (length (digits x) - 1)"
  have "y < 10 ^ 21" unfolding y_def using assms j by (rule shortest_decimal_lt)
  then have "y < 10 ^ Suc 20" by simp
  then have "length (digits y) \<le> Suc 20" by (rule digits_length_le)
  then have "length (digits y) \<le> 21" by simp
  then have "integer_toString x = digits y"
    by (simp add: integer_toString_def Let_def y_def)
  then show ?thesis ..
qed

lemma plain_integer_digits: "plain_integer ((if neg then ''-'' else []) @ digits y)"
proof -
  have h: "hd (digits y) \<noteq> CHR ''-''"
  proof -
    have "isDigit (hd (digits y))"
      using digits_all_digit [of y] digits_nonempty [of y]
      by (cases "digits y") simp_all
    then show ?thesis by (auto simp: isDigit_def)
  qed
  then have t: "take 1 (digits y) \<noteq> ''-''"
    using digits_nonempty [of y] by (cases "digits y") simp_all
  show ?thesis
    using t digits_all_digit [of y] digits_nonempty [of y]
    by (simp add: plain_integer_def)
qed

lemma Number_toString_plain:
  assumes "r \<in> \<int>" and "\<bar>r\<bar> < 10 ^ 21"
  shows "plain_integer (Number_toString host (Finite r))"
proof (cases "r = 0")
  case True
  then show ?thesis by (simp add: Number_toString_def plain_integer_def isDigit_def)
next
  case False
  from assms(1) obtain k where k: "r = of_int k" by (auto elim: Ints_cases)
  have i: "\<bar>r\<bar> = of_int \<lfloor>\<bar>r\<bar>\<rfloor>" by (simp add: k)
  have "real_of_int \<bar>k\<bar> < 10 ^ 21" using assms(2) by (simp add: k)
  then have "\<bar>k\<bar> < 10 ^ 21" by (metis of_int_less_numeral_power_cancel_iff)
  then have "nat \<bar>k\<bar> < 10 ^ 21" by (metis nat_less_numeral_power_cancel_iff)
  moreover have "\<lfloor>\<bar>real_of_int k\<bar>\<rfloor> = \<bar>k\<bar>" by (metis floor_of_int of_int_abs)
  ultimately have n: "nat \<lfloor>\<bar>r\<bar>\<rfloor> < 10 ^ 21" by (simp only: k)
  from integer_toString_plain [OF n] obtain y
    where y: "integer_toString (nat \<lfloor>\<bar>r\<bar>\<rfloor>) = digits y" ..
  have "Number_toString host (Finite r) = (if r < 0 then ''-'' else []) @ digits y"
    using False i y by (simp add: Number_toString_def)
  then show ?thesis by (simp only: plain_integer_digits)
qed

section \<open>Lemmas: the cell renderers\<close>

lemma Math_trunc_eq_iff: "x - Math_trunc x = 0 \<longleftrightarrow> x \<in> \<int>"
proof
  assume "x - Math_trunc x = 0"
  then have "x = Math_trunc x" by simp
  then have "x = of_int (if 0 \<le> x then \<lfloor>x\<rfloor> else \<lceil>x\<rceil>)" by (simp add: Math_trunc_def)
  then show "x \<in> \<int>" by (metis Ints_of_int)
next
  assume "x \<in> \<int>"
  then obtain k where "x = of_int k" by (auto elim: Ints_cases)
  then show "x - Math_trunc x = 0" by (simp add: Math_trunc_def)
qed

lemma integral_test:
  "strict_equals (remainder (Finite x) (Finite 1)) (Finite 0) \<longleftrightarrow> x \<in> \<int>"
  using Math_trunc_eq_iff [of x] by (simp add: strict_equals_def)

lemma integral_test_nonfinite:
  "\<not> strict_equals (remainder NaN (Finite 1)) (Finite 0)"
  "\<not> strict_equals (remainder PosInfinity (Finite 1)) (Finite 0)"
  "\<not> strict_equals (remainder NegInfinity (Finite 1)) (Finite 0)"
  by (simp_all add: strict_equals_def)

lemma is_double_fraction_small:
  assumes "is_double x" and "x \<notin> \<int>"
  shows "\<bar>x\<bar> < 2 ^ 53"
proof -
  from assms(1) obtain m :: int and e :: nat where m: "\<bar>m\<bar> < 2 ^ 53"
    and x: "x = of_int m * 2 ^ e \<or> x = of_int m / 2 ^ e"
    unfolding is_double_def by blast
  have "x \<noteq> of_int m * 2 ^ e"
  proof
    assume "x = of_int m * 2 ^ e"
    then have "x = of_int (m * 2 ^ e)" by simp
    then have "x \<in> \<int>" by (metis Ints_of_int)
    with assms(2) show False by simp
  qed
  with x have x': "x = of_int m / 2 ^ e" by simp
  have "(1::real) \<le> 2 ^ e" by simp
  then have "\<bar>x\<bar> \<le> \<bar>of_int m\<bar>"
    unfolding x' by (simp add: abs_divide divide_le_eq mult_le_cancel_left1 field_simps)
  also have "\<dots> < 2 ^ 53" using m by (metis of_int_abs of_int_less_numeral_power_cancel_iff)
  finally show ?thesis .
qed

lemma value_cell_integral:
  assumes "getValue_value row = Some (Finite x)" and "x \<in> \<int>"
  shows "value_cell host row = Inr (Number (Finite x))"
  using assms integral_test [of x] by (simp add: value_cell_def Let_def)

lemma value_cell_fraction:
  assumes "getValue_value row = Some (Finite x)" and "x \<notin> \<int>" and "\<bar>x\<bar> < 10 ^ 21"
  shows "value_cell host row =
           Inr (Text ((if x < 0 then ''-'' else '''') @ fixedDigits 4 \<bar>x\<bar>))"
  using assms integral_test [of x] by (simp add: value_cell_def Let_def toFixed_def)

lemma value_cell_number: "getValue_value row = Some x \<Longrightarrow> \<exists>n. value_cell host row = Inr n"
  by (cases x) (simp_all add: value_cell_def Let_def toFixed_def)

lemma hasLoneSurrogate_Cons:
  "of_char c \<noteq> (0xED :: nat) \<Longrightarrow> hasLoneSurrogate (c # s) = hasLoneSurrogate s"
  by (cases s) simp_all

lemma hasLoneSurrogate_prefix:
  "hasLoneSurrogate (''name;stringOptions;;any of;'' @ s) = hasLoneSurrogate s"
  by (simp add: hasLoneSurrogate_Cons)

lemma traceName_cell_missing:
  assumes "getValue_traceName row = None"
  shows "traceName_cell pid row =
           Inr (TableLink (''/project/'' @ pid @ ''/traces?filter='') None (Some 40))"
  using assms
  by (simp add: traceName_cell_def Let_def templateString_def truthy_def encodeURIComponent_def)

lemma traceName_cell_total:
  assumes "\<forall>s. getValue_traceName row = Some s \<longrightarrow> \<not> hasLoneSurrogate s"
  shows "\<exists>n. traceName_cell pid row = Inr n"
proof (cases "getValue_traceName row")
  case None
  then show ?thesis by (simp add: traceName_cell_missing)
next
  case (Some s)
  with assms have "\<not> hasLoneSurrogate s" by simp
  with Some hasLoneSurrogate_prefix [of s] show ?thesis
    by (simp add: traceName_cell_def Let_def templateString_def encodeURIComponent_def
        del: append.simps)
qed

lemma traceId_cell_total: "\<exists>n. traceId_cell pid row = Inr n"
  by (simp add: traceId_cell_def split: option.splits)

lemma observationId_cell_total: "\<exists>n. observationId_cell pid row = Inr n"
  by (simp add: observationId_cell_def split: option.splits)

lemma userId_cell_total: "\<exists>n. userId_cell pid row = Inr n"
  by (simp add: userId_cell_def split: option.splits)

lemma columns_cells:
  assumes "c \<in> set (columns host pid)" and "cell c = Some f"
  shows "f = traceId_cell pid \<or> f = observationId_cell pid \<or> f = traceName_cell pid
         \<or> f = value_cell host \<or> f = userId_cell pid"
  using assms by (auto simp: columns_def)

lemma value_column:
  "\<exists>c \<in> set (columns host pid). header c = ''Value'' \<and> cell c = Some (value_cell host)"
  "\<forall>c \<in> set (columns host pid). header c = ''Value'' \<longrightarrow> cell c = Some (value_cell host)"
  by (simp_all add: columns_def)

lemma observationId_column:
  "\<exists>c \<in> set (columns host pid).
     header c = ''Observation ID'' \<and> cell c = Some (observationId_cell pid)"
  "\<forall>c \<in> set (columns host pid).
     header c = ''Observation ID'' \<longrightarrow> cell c = Some (observationId_cell pid)"
  by (simp_all add: columns_def)

lemma cells_total:
  assumes "c \<in> set (columns host pid)" and "cell c = Some f"
    and "getValue_value row \<noteq> None"
    and "\<forall>s. getValue_traceName row = Some s \<longrightarrow> \<not> hasLoneSurrogate s"
  shows "\<exists>n. f row = Inr n"
proof -
  from assms(3) obtain x where x: "getValue_value row = Some x" by blast
  from columns_cells [OF assms(1,2)] show ?thesis
    using traceId_cell_total [of pid row] observationId_cell_total [of pid row]
      userId_cell_total [of pid row] traceName_cell_total [OF assms(4), of pid]
      value_cell_number [OF x, of host]
    by blast
qed

section \<open>Lemmas: the component\<close>

lemma ScoresTable_Inr:
  assumes "ScoresTable host cols uq fo p addr = Inr r"
  shows "query r = scores_query p addr"
    and "toolbar_columns (toolbar r) = columns host (props.projectId p)"
    and "toolbar_filterColumnDefinition (toolbar r) = transformFilterOptions cols p fo"
    and "toolbar_filterState (toolbar r) = userFilterState addr"
    and "table_columns (table r) = columns host (props.projectId p)"
    and "tableData host (uq (scores_query p addr)) = Inr (table_data (table r))"
    and "table_pagination (table r) = pagination addr (uq (scores_query p addr))"
    and "table_orderBy (table r) = orderByState addr"
  using assms by (auto simp: ScoresTable_def Let_def split: sum.splits)

lemma filterState_pinned:
  assumes "props.userId p = Some u" and "u \<noteq> []"
  shows "filterState p addr = userFilterState addr @ [userIdFilter u]"
  using assms by (simp add: filterState_def truthy_def)

lemma userFilterState_set: "userFilterState (setUserFilterState fs addr) = fs"
  by (simp add: userFilterState_def useQueryFilterState_def withDefault_def setUserFilterState_def)

lemma scores_query_omittedFilter:
  "scores_query (p\<lparr>omittedFilter := om\<rparr>) addr = scores_query p addr"
  by (simp add: scores_query_def filterState_def)

lemma ceiling_div_bounds:
  fixes t s :: int
  assumes "0 < s"
  shows "(\<lceil>real_of_int t / real_of_int s\<rceil> - 1) * s < t"
    and "t \<le> \<lceil>real_of_int t / real_of_int s\<rceil> * s"
proof -
  let ?c = "\<lceil>real_of_int t / real_of_int s\<rceil>"
  have s: "0 < real_of_int s" using assms by simp
  have "real_of_int ?c - 1 < real_of_int t / real_of_int s" by linarith
  then have "(real_of_int ?c - 1) * real_of_int s < real_of_int t"
    by (rule iffD1 [OF pos_less_divide_eq [OF s]])
  then have "real_of_int ((?c - 1) * s) < real_of_int t" by simp
  then show "(?c - 1) * s < t" by (simp only: of_int_less_iff)
  have "real_of_int t / real_of_int s \<le> real_of_int ?c" by (rule le_of_int_ceiling)
  then have "real_of_int t \<le> real_of_int ?c * real_of_int s"
    by (rule iffD1 [OF pos_divide_le_eq [OF s]])
  then have "real_of_int t \<le> real_of_int (?c * s)" by simp
  then show "t \<le> ?c * s" by (simp only: of_int_le_iff)
qed

lemma ceiling_div_double:
  fixes a b :: int
  assumes a: "0 < a" "a < 2 ^ 53" and b: "0 < b" "b < 2 ^ 1024"
  shows "\<lceil>round_double (real_of_int a / real_of_int b)\<rceil> = \<lceil>real_of_int a / real_of_int b\<rceil>"
    and "\<bar>round_double (real_of_int a / real_of_int b)\<bar> < 2 ^ 1024"
proof -
  have "\<lceil>round_double (real_of_int a / real_of_int b)\<rceil> = \<lceil>real_of_int a / real_of_int b\<rceil>
      \<and> \<bar>round_double (real_of_int a / real_of_int b)\<bar> < 2 ^ 1024"
  proof (cases "b < 2 ^ 53")
    case True
    show ?thesis
      using ceiling_round_double_quotient [OF a b(1) True] by (rule conjI)
  next
    case False
    with a(2) have "a < b" by simp
    then show ?thesis
      using ceiling_round_double_small [OF a(1) _ b(2)] by (intro conjI)
  qed
  then show "\<lceil>round_double (real_of_int a / real_of_int b)\<rceil> = \<lceil>real_of_int a / real_of_int b\<rceil>"
    and "\<bar>round_double (real_of_int a / real_of_int b)\<bar> < 2 ^ 1024"
    by (rule conjunct1, rule conjunct2)
qed

lemma pageCount_eq:
  assumes t: "0 \<le> totalCount q" "totalCount q < 2 ^ 53"
    and s: "0 < pageSize (paginationState addr)" "pageSize (paginationState addr) < 2 ^ 1024"
  shows "pageCount (pagination addr q) =
           Finite (of_int \<lceil>real_of_int (totalCount q) / real_of_int (pageSize (paginationState addr))\<rceil>)"
proof (cases "totalCount q = 0")
  case True
  then show ?thesis using s(1) by (simp add: pagination_def divide_int_def round_double_def)
next
  case False
  with t(1) have pos: "0 < totalCount q" by simp
  define r where
    "r = round_double (real_of_int (totalCount q) / real_of_int (pageSize (paginationState addr)))"
  have c: "\<lceil>r\<rceil> =
      \<lceil>real_of_int (totalCount q) / real_of_int (pageSize (paginationState addr))\<rceil>"
    unfolding r_def using pos t(2) s by (rule ceiling_div_double(1))
  have "\<bar>r\<bar> < 2 ^ 1024"
    unfolding r_def using pos t(2) s by (rule ceiling_div_double(2))
  then have b: "\<not> 2 ^ 1024 \<le> r" "\<not> r \<le> - (2 ^ 1024)" by linarith+
  have "divide_int (totalCount q) (pageSize (paginationState addr)) = Finite r"
    using s(1) b by (simp only: divide_int_def Let_def r_def [symmetric]) simp
  then show ?thesis by (simp add: pagination_def c)
qed

lemma tableData_cases:
  "query_result.isLoading q \<Longrightarrow>
     tableData host q = Inr \<lparr>AsyncTableData.isLoading = True, AsyncTableData.isError = False,
                AsyncTableData.error = None, AsyncTableData.data = None\<rparr>"
  "\<not> query_result.isLoading q \<Longrightarrow> query_result.isError q \<Longrightarrow> query_result.error q = Some e \<Longrightarrow>
     tableData host q = Inr \<lparr>AsyncTableData.isLoading = False, AsyncTableData.isError = True,
                     AsyncTableData.error = Some (message e), AsyncTableData.data = None\<rparr>"
  "\<not> query_result.isLoading q \<Longrightarrow> \<not> query_result.isError q \<Longrightarrow> query_result.data q = Some d \<Longrightarrow>
     tableData host q = Inr \<lparr>AsyncTableData.isLoading = False, AsyncTableData.isError = False,
                     AsyncTableData.error = None,
                     AsyncTableData.data = Some (map (convertToTableRow host) (scores d))\<rparr>"
  by (simp_all add: tableData_def)

lemma tableData_well_typed:
  assumes "well_typed_result q"
  shows "\<exists>d. tableData host q = Inr d"
  using assms by (auto simp: well_typed_result_def tableData_def)

lemma states_exclusive:
  "\<not> (loading_state d \<and> error_state msg d)"
  "\<not> (loading_state d \<and> success_state rows d)"
  "\<not> (error_state msg d \<and> success_state rows d)"
  by (auto simp: loading_state_def error_state_def success_state_def)

section \<open>The claims of the specification\<close>

subsection \<open>The pinned user filter\<close>

text \<open>
  Claim C1, as amended. When the \<open>userId\<close> prop is a non-empty string, the filter
  sequence of the request is the user-set conditions, in their order, followed by exactly
  one pinned condition on the column "User ID" with type "string", operator "=" and the
  value \<open>userId\<close>. The toolbar receives the user-set sequence without the pinned
  condition, and whatever sequence the setter of the user filter state stores, the
  request built from the new state ends with the pinned condition again.
\<close>

theorem C1_pinned_filter:
  assumes "props.userId p = Some u" and "u \<noteq> []"
  shows "filter' (scores_query p addr) =
           userFilterState addr @
             [\<lparr>FilterCondition.column = ''User ID'', type = ''string'', operator = ''='',
               FilterCondition.value' = StringValue u\<rparr>]
         \<and> (\<forall>host cols uq fo r. ScoresTable host cols uq fo p addr = Inr r \<longrightarrow>
               toolbar_filterState (toolbar r) = userFilterState addr
               \<and> filter' (query r) = toolbar_filterState (toolbar r) @ [userIdFilter u])
         \<and> (\<forall>fs. userFilterState (setUserFilterState fs addr) = fs
               \<and> filter' (scores_query p (setUserFilterState fs addr)) = fs @ [userIdFilter u])"
proof -
  have q: "filter' (scores_query p a) = userFilterState a @ [userIdFilter u]" for a
    using filterState_pinned [OF assms] by (simp add: scores_query_def)
  have 1: "filter' (scores_query p addr) =
           userFilterState addr @
             [\<lparr>FilterCondition.column = ''User ID'', type = ''string'', operator = ''='',
               FilterCondition.value' = StringValue u\<rparr>]"
    using q [of addr] by (simp add: userIdFilter_def)
  have 2: "toolbar_filterState (toolbar r) = userFilterState addr
           \<and> filter' (query r) = toolbar_filterState (toolbar r) @ [userIdFilter u]"
    if "ScoresTable host cols uq fo p addr = Inr r" for host cols uq fo r
    using ScoresTable_Inr(1,4) [OF that] q [of addr] by simp
  have 3: "userFilterState (setUserFilterState fs addr) = fs
           \<and> filter' (scores_query p (setUserFilterState fs addr)) = fs @ [userIdFilter u]" for fs
    using q [of "setUserFilterState fs addr"] by (simp add: userFilterState_set)
  from 1 2 3 show ?thesis by blast
qed

text \<open>The scenario of the specification: the user \<open>u1\<close> is pinned and the user has
  added the filter \<open>name = accuracy\<close>.\<close>

theorem C1_pinned_filter_witness:
  "filter' (scores_query \<lparr>props.projectId = ''p1'', userId = Some ''u1'', omittedFilter = None\<rparr>
      (no_fragments\<lparr>filter_param :=
         Some [\<lparr>FilterCondition.column = ''name'', type = ''string'', operator = ''='',
                FilterCondition.value' = StringValue ''accuracy''\<rparr>]\<rparr>))
   = [\<lparr>FilterCondition.column = ''name'', type = ''string'', operator = ''='',
        FilterCondition.value' = StringValue ''accuracy''\<rparr>,
      \<lparr>FilterCondition.column = ''User ID'', type = ''string'', operator = ''='',
        FilterCondition.value' = StringValue ''u1''\<rparr>]"
proof -
  let ?p = "\<lparr>props.projectId = ''p1'', userId = Some ''u1'', omittedFilter = None\<rparr>"
  have u: "props.userId ?p = Some ''u1''" and n: "''u1'' \<noteq> []" by simp_all
  show ?thesis
    using C1_pinned_filter [OF u n, THEN conjunct1]
    by (simp add: userFilterState_def useQueryFilterState_def withDefault_def)
qed

text \<open>Claim C1 as it is stated fails for a \<open>userId\<close> prop that is provided and is the
  empty string: the test of the source is the truth value of the prop, and the request
  then carries the user-set conditions only.\<close>

theorem C1_counterexample:
  "filter' (scores_query \<lparr>props.projectId = ''p1'', userId = Some [], omittedFilter = None\<rparr>
      no_fragments)
     \<noteq> userFilterState no_fragments @
         [\<lparr>FilterCondition.column = ''User ID'', type = ''string'', operator = ''='',
           FilterCondition.value' = StringValue []\<rparr>]"
  by (simp add: scores_query_def filterState_def truthy_def)

subsection \<open>The initial request\<close>

text \<open>
  Claim C2. With no fragment in the address and no \<open>userId\<close> prop, the request has
  page 0, limit 50, an empty filter sequence and the sort order "timestamp", descending.
\<close>

theorem C2_initial_request:
  "scores_query \<lparr>props.projectId = pid, userId = None, omittedFilter = om\<rparr> no_fragments =
     \<lparr>page = 0, limit = 50, fetch_request.projectId = pid, filter' = [],
      orderBy = Some \<lparr>OrderByState.column = ''timestamp'', order = DESC\<rparr>\<rparr>
   \<and> (\<forall>host cols uq fo r.
         ScoresTable host cols uq fo \<lparr>props.projectId = pid, userId = None, omittedFilter = om\<rparr>
           no_fragments = Inr r \<longrightarrow>
         query r =
           \<lparr>page = 0, limit = 50, fetch_request.projectId = pid, filter' = [],
            orderBy = Some \<lparr>OrderByState.column = ''timestamp'', order = DESC\<rparr>\<rparr>)"
proof -
  have q: "scores_query \<lparr>props.projectId = pid, userId = None, omittedFilter = om\<rparr> no_fragments =
     \<lparr>page = 0, limit = 50, fetch_request.projectId = pid, filter' = [],
      orderBy = Some \<lparr>OrderByState.column = ''timestamp'', order = DESC\<rparr>\<rparr>"
    by (simp add: scores_query_def paginationState_def filterState_def userFilterState_def
        useQueryFilterState_def orderByState_def useOrderByState_def withDefault_def
        no_fragments_def)
  show ?thesis
    using q ScoresTable_Inr(1) by metis
qed

text \<open>The initial request of the project \<open>p1\<close>.\<close>

theorem C2_initial_request_witness:
  "page (scores_query \<lparr>props.projectId = ''p1'', userId = None, omittedFilter = None\<rparr>
           no_fragments) = 0
   \<and> limit (scores_query \<lparr>props.projectId = ''p1'', userId = None, omittedFilter = None\<rparr>
           no_fragments) = 50
   \<and> filter' (scores_query \<lparr>props.projectId = ''p1'', userId = None, omittedFilter = None\<rparr>
           no_fragments) = []
   \<and> orderBy (scores_query \<lparr>props.projectId = ''p1'', userId = None, omittedFilter = None\<rparr>
           no_fragments) = Some \<lparr>OrderByState.column = ''timestamp'', order = DESC\<rparr>"
  using C2_initial_request [of "''p1''" None, THEN conjunct1] by simp

subsection \<open>The Value column\<close>

text \<open>
  Claim C3, as amended. The column with the header "Value" has the renderer
  \<open>value_cell\<close>. For every finite double, this renderer returns the number itself when
  it is integral, and the text that is displayed for this number is a plain integer
  numeral when the magnitude is below \<open>10^21\<close>, which is the decimal numeral of the
  number itself (after a sign for a negative number) when the magnitude is below
  \<open>2^53\<close>. When the number is not integral, the renderer returns, and the table
  displays, the fixed-point numeral with four decimals of the number rounded to four
  decimals (half up in magnitude): a sign for a negative number, the digits of the
  integer part, a point, and four digits.
\<close>

theorem C3_value_cell_finite:
  assumes "getValue_value row = Some (Finite x)" and "is_double x"
  shows "(\<exists>c \<in> set (columns host pid). header c = ''Value'' \<and> cell c = Some (value_cell host))
       \<and> (\<forall>c \<in> set (columns host pid). header c = ''Value'' \<longrightarrow> cell c = Some (value_cell host))
       \<and> (x \<in> \<int> \<longrightarrow> value_cell host row = Inr (Number (Finite x)))
       \<and> (x \<in> \<int> \<and> \<bar>x\<bar> < 10 ^ 21 \<longrightarrow>
            (\<exists>s. node_text host (Number (Finite x)) = Some s \<and> plain_integer s))
       \<and> (x \<in> \<int> \<and> \<bar>x\<bar> < 2 ^ 53 \<longrightarrow>
            node_text host (Number (Finite x))
              = Some ((if x < 0 then ''-'' else '''') @ digits (nat \<lfloor>\<bar>x\<bar>\<rfloor>)))
       \<and> (x \<notin> \<int> \<longrightarrow>
            (let n = nat \<lfloor>\<bar>x\<bar> * 10 ^ 4 + 1 / 2\<rfloor>;
                 s = (if x < 0 then ''-'' else '''') @ digits (n div 10000) @ ''.'' @ frac4 n
             in value_cell host row = Inr (Text s) \<and> node_text host (Text s) = Some s
                \<and> fixed_point4 s))"
proof -
  have i: "x \<in> \<int> \<longrightarrow> value_cell host row = Inr (Number (Finite x))"
    using assms(1) by (simp add: value_cell_integral)
  have p: "x \<in> \<int> \<and> \<bar>x\<bar> < 10 ^ 21 \<longrightarrow>
            (\<exists>s. node_text host (Number (Finite x)) = Some s \<and> plain_integer s)"
    by (simp add: Number_toString_plain)
  have e: "x \<in> \<int> \<and> \<bar>x\<bar> < 2 ^ 53 \<longrightarrow>
            node_text host (Number (Finite x))
              = Some ((if x < 0 then ''-'' else '''') @ digits (nat \<lfloor>\<bar>x\<bar>\<rfloor>))"
    by (simp add: Number_toString_safe)
  have f: "x \<notin> \<int> \<longrightarrow>
            (let n = nat \<lfloor>\<bar>x\<bar> * 10 ^ 4 + 1 / 2\<rfloor>;
                 s = (if x < 0 then ''-'' else '''') @ digits (n div 10000) @ ''.'' @ frac4 n
             in value_cell host row = Inr (Text s) \<and> node_text host (Text s) = Some s
                \<and> fixed_point4 s)"
  proof
    assume nx: "x \<notin> \<int>"
    have "\<bar>x\<bar> < 2 ^ 53" using assms(2) nx by (rule is_double_fraction_small)
    then have small: "\<bar>x\<bar> < 10 ^ 21" by simp
    define n where "n = nat \<lfloor>\<bar>x\<bar> * 10 ^ 4 + 1 / 2\<rfloor>"
    have v: "value_cell host row =
        Inr (Text ((if x < 0 then ''-'' else '''') @ digits (n div 10000) @ ''.'' @ frac4 n))"
      using value_cell_fraction [OF assms(1) nx small, of host]
      by (simp add: fixedDigits_4 Let_def n_def)
    have p: "fixed_point4
        ((if x < 0 then ''-'' else '''') @ digits (n div 10000) @ ''.'' @ frac4 n)"
      using fixed_point4_shape [OF digits_all_digit digits_nonempty frac4_digits,
          of "n div 10000" n]
      by simp
    show "let n = nat \<lfloor>\<bar>x\<bar> * 10 ^ 4 + 1 / 2\<rfloor>;
              s = (if x < 0 then ''-'' else '''') @ digits (n div 10000) @ ''.'' @ frac4 n
          in value_cell host row = Inr (Text s) \<and> node_text host (Text s) = Some s
             \<and> fixed_point4 s"
      using v p by (simp add: Let_def n_def)
  qed
  from value_column [of host pid] i p e f show ?thesis by blast
qed

text \<open>The examples of the specification: 3, and the doubles that the literals
  \<open>3.14159\<close> and \<open>3.1\<close> denote, with the texts that are displayed.\<close>

theorem C3_value_cell_finite_witness:
  "(\<forall>host.
      value_cell host
        \<lparr>getValue_traceId = None, getValue_observationId = None, getValue_traceName = None,
         getValue_value = Some (Finite 3), getValue_userId = None\<rparr>
        = Inr (Number (Finite 3))
    \<and> node_text host (Number (Finite 3)) = Some ''3''
    \<and> value_cell host
        \<lparr>getValue_traceId = None, getValue_observationId = None, getValue_traceName = None,
         getValue_value = Some (Finite (3537115888337719 / 1125899906842624)),
         getValue_userId = None\<rparr>
        = Inr (Text ''3.1416'')
    \<and> node_text host (Text ''3.1416'') = Some ''3.1416''
    \<and> value_cell host
        \<lparr>getValue_traceId = None, getValue_observationId = None, getValue_traceName = None,
         getValue_value = Some (Finite (6980579422424269 / 2251799813685248)),
         getValue_userId = None\<rparr>
        = Inr (Text ''3.1000'')
    \<and> node_text host (Text ''3.1000'') = Some ''3.1000'')"
proof (intro allI conjI)
  fix host
  let ?row = "\<lambda>v. \<lparr>getValue_traceId = None, getValue_observationId = None,
         getValue_traceName = None, getValue_value = Some (Finite v), getValue_userId = None\<rparr>"
  have d1: "is_double 3"
    unfolding is_double_def by (rule exI [of _ "3::int"], rule exI [of _ "0::nat"]) simp
  have d2: "is_double (3537115888337719 / 1125899906842624)"
    unfolding is_double_def
    by (rule exI [of _ "3537115888337719::int"], rule exI [of _ "50::nat"]) simp
  have d3: "is_double (6980579422424269 / 2251799813685248)"
    unfolding is_double_def
    by (rule exI [of _ "6980579422424269::int"], rule exI [of _ "51::nat"]) simp
  have n2: "nat \<lfloor>\<bar>3537115888337719 / 1125899906842624 :: real\<bar> * 10 ^ 4 + 1 / 2\<rfloor> = 31416"
    by simp
  have n3: "nat \<lfloor>\<bar>6980579422424269 / 2251799813685248 :: real\<bar> * 10 ^ 4 + 1 / 2\<rfloor> = 31000"
    by simp
  have g: "getValue_value (?row v) = Some (Finite v)" for v by simp
  show "value_cell host (?row 3) = Inr (Number (Finite 3))"
    using C3_value_cell_finite [OF g d1, of host "''p1''"] by simp
  show "node_text host (Number (Finite 3)) = Some ''3''"
    using C3_value_cell_finite [OF g d1, of host "''p1''"] by (simp add: digits_small)
  show "value_cell host (?row (3537115888337719 / 1125899906842624)) = Inr (Text ''3.1416'')"
    using C3_value_cell_finite [OF g d2, of host "''p1''"]
    by (simp add: n2 Let_def frac4_def digitChar_def digits_small)
  show "node_text host (Text ''3.1416'') = Some ''3.1416''"
    using C3_value_cell_finite [OF g d2, of host "''p1''"]
    by (simp add: n2 Let_def frac4_def digitChar_def digits_small)
  show "value_cell host (?row (6980579422424269 / 2251799813685248)) = Inr (Text ''3.1000'')"
    using C3_value_cell_finite [OF g d3, of host "''p1''"]
    by (simp add: n3 Let_def frac4_def digitChar_def digits_small)
  show "node_text host (Text ''3.1000'') = Some ''3.1000''"
    using C3_value_cell_finite [OF g d3, of host "''p1''"]
    by (simp add: n3 Let_def frac4_def digitChar_def digits_small)
qed

text \<open>Claim C3 as it is stated fails for a number that is not finite: the test for an
  integral value is false, and \<open>toFixed\<close> returns the name of the value, which is not a
  fixed-point numeral. It fails also for the integral double \<open>10^21\<close>, which is returned
  as a number and displayed in exponent form. From \<open>2^53\<close> on, the text of an integral
  double is the shortest numeral that denotes it, which need not be its own: the double
  18014398509482008 is displayed as 18014398509482010.\<close>

theorem C3_counterexample:
  "(\<forall>host.
      value_cell host
        \<lparr>getValue_traceId = None, getValue_observationId = None, getValue_traceName = None,
         getValue_value = Some PosInfinity, getValue_userId = None\<rparr>
        = Inr (Text ''Infinity''))
   \<and> \<not> fixed_point4 ''Infinity''
   \<and> is_double (10 ^ 21)
   \<and> (\<forall>host.
        value_cell host
          \<lparr>getValue_traceId = None, getValue_observationId = None, getValue_traceName = None,
           getValue_value = Some (Finite (10 ^ 21)), getValue_userId = None\<rparr>
          = Inr (Number (Finite (10 ^ 21)))
        \<and> node_text host (Number (Finite (10 ^ 21))) = Some ''1e+21'')
   \<and> \<not> plain_integer ''1e+21''
   \<and> is_double 18014398509482008
   \<and> (\<forall>host.
        value_cell host
          \<lparr>getValue_traceId = None, getValue_observationId = None, getValue_traceName = None,
           getValue_value = Some (Finite 18014398509482008), getValue_userId = None\<rparr>
          = Inr (Number (Finite 18014398509482008))
        \<and> node_text host (Number (Finite 18014398509482008)) = Some ''18014398509482010'')
   \<and> digits 18014398509482008 = ''18014398509482008''"
proof (intro conjI allI)
  fix host
  show "value_cell host
        \<lparr>getValue_traceId = None, getValue_observationId = None, getValue_traceName = None,
         getValue_value = Some PosInfinity, getValue_userId = None\<rparr>
        = Inr (Text ''Infinity'')"
    by (simp add: value_cell_def Let_def strict_equals_def toFixed_def)
  show "\<not> fixed_point4 ''Infinity''"
    by (simp add: fixed_point4_def isDigit_def)
  show "is_double (10 ^ 21)"
    unfolding is_double_def
    by (rule exI [of _ "476837158203125::int"], rule exI [of _ "21::nat"]) simp
  have z: "(10::real) ^ 21 \<in> \<int>" by simp
  show "value_cell host
          \<lparr>getValue_traceId = None, getValue_observationId = None, getValue_traceName = None,
           getValue_value = Some (Finite (10 ^ 21)), getValue_userId = None\<rparr>
          = Inr (Number (Finite (10 ^ 21)))"
    by (rule value_cell_integral [OF _ z]) simp
  have n: "nat \<lfloor>\<bar>(10::real) ^ 21\<bar>\<rfloor> = 10 ^ 21" by simp
  have "Number_toString host (Finite (10 ^ 21)) = integer_toString (10 ^ 21)"
    unfolding Number_toString_def js_number.case n by simp
  then show "node_text host (Number (Finite (10 ^ 21))) = Some ''1e+21''"
    by (simp only: node_text.simps toString_1e21)
  show "\<not> plain_integer ''1e+21''"
    by (simp add: plain_integer_def isDigit_def)
  show "is_double 18014398509482008"
    unfolding is_double_def
    by (rule exI [of _ "4503599627370502::int"], rule exI [of _ "2::nat"]) simp
  have z': "(18014398509482008::real) \<in> \<int>" by simp
  show "value_cell host
          \<lparr>getValue_traceId = None, getValue_observationId = None, getValue_traceName = None,
           getValue_value = Some (Finite 18014398509482008), getValue_userId = None\<rparr>
          = Inr (Number (Finite 18014398509482008))"
    by (rule value_cell_integral [OF _ z']) simp
  show d: "digits 18014398509482008 = ''18014398509482008''"
    by (simp add: digits.simps digitChar_def)
  have d': "digits 18014398509482010 = ''18014398509482010''"
    by (simp add: digits.simps digitChar_def)
  have len: "length (digits 18014398509482008) - 1 = 16" by (simp add: d)
  have "integer_toString 18014398509482008 = ''18014398509482010''"
    unfolding integer_toString_def Let_def len sd_above_safe d' by simp
  moreover have "Number_toString host (Finite 18014398509482008)
      = integer_toString 18014398509482008"
    unfolding Number_toString_def js_number.case by simp
  ultimately show "node_text host (Number (Finite 18014398509482008))
      = Some ''18014398509482010''"
    by (simp only: node_text.simps)
qed

subsection \<open>The page count\<close>

text \<open>
  Claim C4, as amended. For a total count \<open>t\<close> with \<open>0 \<le> t < 2^53\<close> and a page size
  \<open>s > 0\<close> (below \<open>2^1024\<close>, as every finite number is), the page count that the table
  receives is the ceiling of \<open>t / s\<close>, that is the only \<open>c\<close> with
  \<open>(c - 1) * s < t \<le> c * s\<close>; it is 0 when the total count is 0, and in particular when
  the query has no data yet.
\<close>

theorem C4_pageCount:
  assumes "ScoresTable host cols uq fo p addr = Inr r"
    and "0 \<le> totalCount (uq (scores_query p addr))"
    and "totalCount (uq (scores_query p addr)) < 2 ^ 53"
    and "0 < pageSize (state (table_pagination (table r)))"
    and "pageSize (state (table_pagination (table r))) < 2 ^ 1024"
  shows "(let t = totalCount (uq (scores_query p addr));
              s = pageSize (state (table_pagination (table r)));
              c = \<lceil>real_of_int t / real_of_int s\<rceil>
          in pageCount (table_pagination (table r)) = Finite (of_int c)
             \<and> (c - 1) * s < t \<and> t \<le> c * s
             \<and> (t = 0 \<longrightarrow> pageCount (table_pagination (table r)) = Finite 0)
             \<and> (query_result.data (uq (scores_query p addr)) = None \<longrightarrow>
                  pageCount (table_pagination (table r)) = Finite 0))"
proof -
  let ?q = "uq (scores_query p addr)"
  have pg: "table_pagination (table r) = pagination addr ?q"
    using ScoresTable_Inr(7) [OF assms(1)] .
  have st: "state (table_pagination (table r)) = paginationState addr"
    by (simp add: pg pagination_def)
  have pos: "0 < pageSize (paginationState addr)" using assms(4) st by simp
  have bd: "pageSize (paginationState addr) < 2 ^ 1024" using assms(5) st by simp
  have pc: "pageCount (table_pagination (table r)) =
      Finite (of_int \<lceil>real_of_int (totalCount ?q) / real_of_int (pageSize (paginationState addr))\<rceil>)"
    unfolding pg using assms(2,3) pos bd by (rule pageCount_eq)
  have none: "totalCount ?q = 0" if "query_result.data ?q = None"
    using that by (simp add: totalCount_def)
  show ?thesis
    unfolding Let_def st
    using pc ceiling_div_bounds [OF pos, of "totalCount ?q"] none by auto
qed

text \<open>101 scores with the default page size of 50 make 3 pages.\<close>

theorem C4_pageCount_witness:
  "(\<exists>r. ScoresTable \<lparr>fraction_toString = (\<lambda>x. []), Date_toLocaleString = (\<lambda>t. [])\<rparr>
           (\<lambda>opts :: unit option. [] :: ColumnDefinition list)
           (\<lambda>req. \<lparr>query_result.isLoading = False, query_result.isError = False,
                     query_result.error = None,
                     query_result.data = Some \<lparr>scores = [], totalCount = 101\<rparr>\<rparr>)
           None
           \<lparr>props.projectId = ''p1'', userId = None, omittedFilter = None\<rparr>
           no_fragments = Inr r
        \<and> pageCount (table_pagination (table r)) = Finite 3)"
proof -
  let ?host = "\<lparr>fraction_toString = (\<lambda>x. []), Date_toLocaleString = (\<lambda>t. [])\<rparr>"
  let ?cols = "\<lambda>opts :: unit option. [] :: ColumnDefinition list"
  let ?uq = "\<lambda>req :: fetch_request.
               \<lparr>query_result.isLoading = False, query_result.isError = False,
                query_result.error = None,
                query_result.data = Some \<lparr>scores = [], totalCount = 101\<rparr>\<rparr>"
  let ?p = "\<lparr>props.projectId = ''p1'', userId = None, omittedFilter = None\<rparr>"
  obtain r where r: "ScoresTable ?host ?cols ?uq None ?p no_fragments = Inr r"
    by (simp add: ScoresTable_def tableData_def Let_def)
  have st: "pageSize (state (table_pagination (table r))) = 50"
    using ScoresTable_Inr(7) [OF r]
    by (simp add: pagination_def paginationState_def withDefault_def no_fragments_def)
  have t: "totalCount (?uq (scores_query ?p no_fragments)) = 101"
    by (simp add: totalCount_def)
  have "pageCount (table_pagination (table r)) = Finite 3"
    using C4_pageCount [OF r] st t by (simp add: Let_def)
  with r show ?thesis by blast
qed

text \<open>Claim C4 as it is stated fails for a total count from \<open>2^53\<close> on: the quotient
  is rounded to a double before the ceiling is taken. For 13510798882111492 scores (a
  double) and a page size of 3 the quotient \<open>4503599627370497.33\<dots>\<close> is rounded to
  4503599627370497, which is the page count, and 4503599627370497 pages of 3 scores do
  not hold all the scores.\<close>

theorem C4_counterexample:
  "(case ScoresTable \<lparr>fraction_toString = (\<lambda>x. []), Date_toLocaleString = (\<lambda>t. [])\<rparr>
           (\<lambda>opts :: unit option. [] :: ColumnDefinition list)
           (\<lambda>req. \<lparr>query_result.isLoading = False, query_result.isError = False,
                     query_result.error = None,
                     query_result.data =
                       Some \<lparr>scores = [], totalCount = 13510798882111492\<rparr>\<rparr>)
           None
           \<lparr>props.projectId = ''p1'', userId = None, omittedFilter = None\<rparr>
           (no_fragments\<lparr>pageSize_param := Some 3\<rparr>) of
      Inl e \<Rightarrow> None
    | Inr r \<Rightarrow> Some (pageCount (table_pagination (table r)),
                     pageSize (state (table_pagination (table r)))))
     = Some (Finite 4503599627370497, 3)
   \<and> \<lceil>13510798882111492 / 3 :: real\<rceil> = 4503599627370498
   \<and> 4503599627370497 * 3 < (13510798882111492 :: int)
   \<and> is_double 13510798882111492"
proof (intro conjI)
  have r: "round_double (13510798882111492 / 3) = 4503599627370497"
    by (simp add: round_double_def ulp_def binade_def bit_length.simps pow2_def
        round_half_even_def Let_def)
  have d: "divide_int 13510798882111492 3 = Finite 4503599627370497"
    by (simp add: divide_int_def Let_def r)
  show "(case ScoresTable \<lparr>fraction_toString = (\<lambda>x. []), Date_toLocaleString = (\<lambda>t. [])\<rparr>
           (\<lambda>opts :: unit option. [] :: ColumnDefinition list)
           (\<lambda>req. \<lparr>query_result.isLoading = False, query_result.isError = False,
                     query_result.error = None,
                     query_result.data =
                       Some \<lparr>scores = [], totalCount = 13510798882111492\<rparr>\<rparr>)
           None
           \<lparr>props.projectId = ''p1'', userId = None, omittedFilter = None\<rparr>
           (no_fragments\<lparr>pageSize_param := Some 3\<rparr>) of
      Inl e \<Rightarrow> None
    | Inr r \<Rightarrow> Some (pageCount (table_pagination (table r)),
                     pageSize (state (table_pagination (table r)))))
     = Some (Finite 4503599627370497, 3)"
    by (simp add: ScoresTable_def tableData_def Let_def pagination_def paginationState_def
        withDefault_def no_fragments_def totalCount_def d)
  show "\<lceil>13510798882111492 / 3 :: real\<rceil> = 4503599627370498" by simp
  show "4503599627370497 * 3 < (13510798882111492 :: int)" by simp
  show "is_double 13510798882111492"
    unfolding is_double_def
    by (rule exI [of _ "6755399441055746::int"], rule exI [of _ "1::nat"]) simp
qed

subsection \<open>Changing the page size\<close>

text \<open>
  Claim C5. Setting only the page size leaves the page index and the filter sequence as
  they are: the next request has the new limit, the same page and the same filter.
\<close>

theorem C5_pageSize_update:
  "(let addr' = setPaginationState \<lparr>pageIndex_update = None, pageSize_update = Some n\<rparr> addr
    in limit (scores_query p addr') = n
       \<and> page (scores_query p addr') = page (scores_query p addr)
       \<and> filter' (scores_query p addr') = filter' (scores_query p addr)
       \<and> pageIndex (paginationState addr') = pageIndex (paginationState addr)
       \<and> userFilterState addr' = userFilterState addr)"
  by (simp add: Let_def setPaginationState_def scores_query_def paginationState_def
      filterState_def userFilterState_def useQueryFilterState_def withDefault_def
      split: option.splits)

text \<open>On page 3, setting the page size to 25 gives limit 25 and still page 3.\<close>

theorem C5_pageSize_update_witness:
  "limit (scores_query \<lparr>props.projectId = ''p1'', userId = None, omittedFilter = None\<rparr>
            (setPaginationState \<lparr>pageIndex_update = None, pageSize_update = Some 25\<rparr>
               (no_fragments\<lparr>pageIndex_param := Some 3\<rparr>))) = 25
   \<and> page (scores_query \<lparr>props.projectId = ''p1'', userId = None, omittedFilter = None\<rparr>
            (setPaginationState \<lparr>pageIndex_update = None, pageSize_update = Some 25\<rparr>
               (no_fragments\<lparr>pageIndex_param := Some 3\<rparr>))) = 3"
  using C5_pageSize_update [of 25 "no_fragments\<lparr>pageIndex_param := Some 3\<rparr>"
      "\<lparr>props.projectId = ''p1'', userId = None, omittedFilter = None\<rparr>"]
  by (simp add: Let_def scores_query_def paginationState_def withDefault_def no_fragments_def)

subsection \<open>Missing fields\<close>

text \<open>
  Claim C6, as amended. Every renderer of the column list returns on every row whose
  value is a number and whose trace name, if it has one, has no lone surrogate; so it
  does on every row of the declared row type with such a trace name. The renderers of
  Trace ID, Observation ID and User ID return on every row, and return \<open>undefined\<close>,
  \<open>null\<close> and \<open>undefined\<close> when their own field is missing. The renderer of Trace
  Name returns on a row whose trace name is missing, with a link that has no label and
  an empty filter.
\<close>

theorem C6_cells_total:
  "(\<forall>c \<in> set (columns host pid). \<forall>f. cell c = Some f \<longrightarrow>
      getValue_value row \<noteq> None \<longrightarrow>
      (\<forall>s. getValue_traceName row = Some s \<longrightarrow> \<not> hasLoneSurrogate s) \<longrightarrow>
      (\<exists>n. f row = Inr n))
   \<and> (\<forall>r. \<not> hasLoneSurrogate (ScoresTableRow.traceName r) \<longrightarrow>
         (\<forall>c \<in> set (columns host pid). \<forall>f. cell c = Some f \<longrightarrow> (\<exists>n. f (row_of r) = Inr n)))
   \<and> (\<exists>n. traceId_cell pid row = Inr n)
   \<and> (getValue_traceId row = None \<longrightarrow> traceId_cell pid row = Inr Undefined)
   \<and> (\<exists>n. observationId_cell pid row = Inr n)
   \<and> (getValue_observationId row = None \<longrightarrow> observationId_cell pid row = Inr Null)
   \<and> (\<exists>n. userId_cell pid row = Inr n)
   \<and> (getValue_userId row = None \<longrightarrow> userId_cell pid row = Inr Undefined)
   \<and> (getValue_traceName row = None \<longrightarrow>
         traceName_cell pid row =
           Inr (TableLink (''/project/'' @ pid @ ''/traces?filter='') None (Some 40)))"
proof -
  have 0: "\<forall>c \<in> set (columns host pid). \<forall>f. cell c = Some f \<longrightarrow>
      getValue_value row \<noteq> None \<longrightarrow>
      (\<forall>s. getValue_traceName row = Some s \<longrightarrow> \<not> hasLoneSurrogate s) \<longrightarrow>
      (\<exists>n. f row = Inr n)"
    using cells_total by blast
  have 1: "\<forall>r. \<not> hasLoneSurrogate (ScoresTableRow.traceName r) \<longrightarrow>
         (\<forall>c \<in> set (columns host pid). \<forall>f. cell c = Some f \<longrightarrow> (\<exists>n. f (row_of r) = Inr n))"
  proof (intro allI impI ballI)
    fix r :: ScoresTableRow and c f
    assume s: "\<not> hasLoneSurrogate (ScoresTableRow.traceName r)"
      and c: "c \<in> set (columns host pid)" and f: "cell c = Some f"
    have v: "getValue_value (row_of r) \<noteq> None" by (simp add: row_of_def)
    have t: "\<forall>s. getValue_traceName (row_of r) = Some s \<longrightarrow> \<not> hasLoneSurrogate s"
      using s by (simp add: row_of_def)
    from cells_total [OF c f v t] show "\<exists>n. f (row_of r) = Inr n" .
  qed
  have 2: "getValue_traceId row = None \<longrightarrow> traceId_cell pid row = Inr Undefined"
    by (simp add: traceId_cell_def)
  have 4: "getValue_observationId row = None \<longrightarrow> observationId_cell pid row = Inr Null"
    by (simp add: observationId_cell_def)
  have 6: "getValue_userId row = None \<longrightarrow> userId_cell pid row = Inr Undefined"
    by (simp add: userId_cell_def)
  have 7: "getValue_traceName row = None \<longrightarrow>
         traceName_cell pid row =
           Inr (TableLink (''/project/'' @ pid @ ''/traces?filter='') None (Some 40))"
    using traceName_cell_missing by blast
  from 0 1 2 4 6 7 traceId_cell_total [of pid row] observationId_cell_total [of pid row]
    userId_cell_total [of pid row]
  show ?thesis by blast
qed

text \<open>Rows with missing fields, and a row with the value 3.\<close>

theorem C6_cells_total_witness:
  "(\<forall>host.
     traceId_cell ''p1''
       \<lparr>getValue_traceId = None, getValue_observationId = Some ''o1'', getValue_traceName = None,
        getValue_value = Some (Finite 3), getValue_userId = None\<rparr> = Inr Undefined
   \<and> observationId_cell ''p1''
       \<lparr>getValue_traceId = None, getValue_observationId = None, getValue_traceName = None,
        getValue_value = Some (Finite 3), getValue_userId = None\<rparr> = Inr Null
   \<and> userId_cell ''p1''
       \<lparr>getValue_traceId = None, getValue_observationId = None, getValue_traceName = None,
        getValue_value = Some (Finite 3), getValue_userId = None\<rparr> = Inr Undefined
   \<and> traceName_cell ''p1''
       \<lparr>getValue_traceId = None, getValue_observationId = None, getValue_traceName = None,
        getValue_value = Some (Finite 3), getValue_userId = None\<rparr>
       = Inr (TableLink ''/project/p1/traces?filter='' None (Some 40))
   \<and> (\<exists>n. value_cell host
       \<lparr>getValue_traceId = None, getValue_observationId = None, getValue_traceName = None,
        getValue_value = Some (Finite 3), getValue_userId = None\<rparr> = Inr n))"
proof
  fix host
  let ?r1 = "\<lparr>getValue_traceId = None, getValue_observationId = Some ''o1'',
        getValue_traceName = None, getValue_value = Some (Finite 3), getValue_userId = None\<rparr>"
  let ?r2 = "\<lparr>getValue_traceId = None, getValue_observationId = None, getValue_traceName = None,
        getValue_value = Some (Finite 3), getValue_userId = None\<rparr>"
  have c: "\<exists>c \<in> set (columns host ''p1''). cell c = Some (value_cell host)"
    using value_column(1) [of host "''p1''"] by blast
  have v: "getValue_value ?r2 \<noteq> None"
    and t: "\<forall>s. getValue_traceName ?r2 = Some s \<longrightarrow> \<not> hasLoneSurrogate s"
    by simp_all
  have "\<exists>n. value_cell host ?r2 = Inr n"
    using C6_cells_total [of host "''p1''" ?r2, THEN conjunct1] c v t by blast
  then show "traceId_cell ''p1'' ?r1 = Inr Undefined
   \<and> observationId_cell ''p1'' ?r2 = Inr Null
   \<and> userId_cell ''p1'' ?r2 = Inr Undefined
   \<and> traceName_cell ''p1'' ?r2 = Inr (TableLink ''/project/p1/traces?filter='' None (Some 40))
   \<and> (\<exists>n. value_cell host ?r2 = Inr n)"
    using C6_cells_total [of host "''p1''" ?r1] C6_cells_total [of host "''p1''" ?r2]
    by simp
qed

text \<open>Claim C6 as it is stated fails twice: on a row without a value the renderer of
  Value throws \<open>TypeError\<close>, and on a row without a trace name the renderer of Trace Name
  returns a link, not an absent marker.\<close>

theorem C6_counterexample:
  "(\<forall>host.
      value_cell host
        \<lparr>getValue_traceId = Some ''t1'', getValue_observationId = None,
         getValue_traceName = Some ''n1'', getValue_value = None, getValue_userId = None\<rparr>
        = Inl TypeError)
   \<and> traceName_cell ''p1''
        \<lparr>getValue_traceId = Some ''t1'', getValue_observationId = None,
         getValue_traceName = None, getValue_value = Some (Finite 3), getValue_userId = None\<rparr>
        = Inr (TableLink ''/project/p1/traces?filter='' None (Some 40))"
  by (simp add: value_cell_def Let_def strict_equals_def traceName_cell_missing)

subsection \<open>Omitted filter columns\<close>

text \<open>
  Claim C7. The descriptors of filterable columns that the toolbar receives are all
  descriptors but those whose name is in \<open>omittedFilter\<close>, in their order; the display
  columns of the toolbar and of the table are the same for every \<open>omittedFilter\<close>.
\<close>

theorem C7_omittedFilter:
  assumes "ScoresTable host cols uq fo p addr = Inr r"
  shows "(let omitted = withDefault (omittedFilter p) [];
              shown = toolbar_filterColumnDefinition (toolbar r)
          in set shown = set (cols fo) - {c. ColumnDefinition.name c \<in> set omitted}
             \<and> shown = filter (\<lambda>c. ColumnDefinition.name c \<notin> set omitted) (cols fo)
             \<and> subseq shown (cols fo))
         \<and> (omittedFilter p = None \<longrightarrow> toolbar_filterColumnDefinition (toolbar r) = cols fo)
         \<and> toolbar_columns (toolbar r) = columns host (props.projectId p)
         \<and> table_columns (table r) = columns host (props.projectId p)
         \<and> (\<forall>om. \<exists>r'. ScoresTable host cols uq fo (p\<lparr>omittedFilter := om\<rparr>) addr = Inr r'
               \<and> toolbar_columns (toolbar r') = toolbar_columns (toolbar r)
               \<and> table_columns (table r') = table_columns (table r))"
proof -
  have f: "toolbar_filterColumnDefinition (toolbar r) =
      filter (\<lambda>c. ColumnDefinition.name c \<notin> set (withDefault (omittedFilter p) [])) (cols fo)"
    using ScoresTable_Inr(3) [OF assms]
    by (simp add: transformFilterOptions_def array_includes_def)
  have 1: "let omitted = withDefault (omittedFilter p) [];
              shown = toolbar_filterColumnDefinition (toolbar r)
          in set shown = set (cols fo) - {c. ColumnDefinition.name c \<in> set omitted}
             \<and> shown = filter (\<lambda>c. ColumnDefinition.name c \<notin> set omitted) (cols fo)
             \<and> subseq shown (cols fo)"
    unfolding Let_def f by auto
  have 2: "omittedFilter p = None \<longrightarrow> toolbar_filterColumnDefinition (toolbar r) = cols fo"
    unfolding f by (simp add: withDefault_def)
  have 3: "toolbar_columns (toolbar r) = columns host (props.projectId p)"
    and 4: "table_columns (table r) = columns host (props.projectId p)"
    using ScoresTable_Inr(2,5) [OF assms] by simp_all
  have 5: "\<exists>r'. ScoresTable host cols uq fo (p\<lparr>omittedFilter := om\<rparr>) addr = Inr r'
               \<and> toolbar_columns (toolbar r') = toolbar_columns (toolbar r)
               \<and> table_columns (table r') = table_columns (table r)" for om
  proof -
    from ScoresTable_Inr(6) [OF assms]
    have "tableData host (uq (scores_query (p\<lparr>omittedFilter := om\<rparr>) addr))
            = Inr (table_data (table r))"
      by (simp add: scores_query_omittedFilter)
    then obtain r' where r': "ScoresTable host cols uq fo (p\<lparr>omittedFilter := om\<rparr>) addr = Inr r'"
      by (simp add: ScoresTable_def Let_def)
    from ScoresTable_Inr(2,5) [OF r'] 3 4 r' show ?thesis by simp
  qed
  from 1 2 3 4 5 show ?thesis by blast
qed

text \<open>Omitting "User ID" from three descriptors leaves two, and all eight display
  columns.\<close>

theorem C7_omittedFilter_witness:
  "(\<exists>r. ScoresTable \<lparr>fraction_toString = (\<lambda>x. []), Date_toLocaleString = (\<lambda>t. [])\<rparr>
           (\<lambda>opts :: unit option.
              [\<lparr>ColumnDefinition.name = ''Trace ID''\<rparr>, \<lparr>ColumnDefinition.name = ''User ID''\<rparr>,
               \<lparr>ColumnDefinition.name = ''Value''\<rparr>])
           (\<lambda>req. \<lparr>query_result.isLoading = True, query_result.isError = False,
                     query_result.error = None, query_result.data = None\<rparr>)
           None
           \<lparr>props.projectId = ''p1'', userId = None, omittedFilter = Some [''User ID'']\<rparr>
           no_fragments = Inr r
        \<and> toolbar_filterColumnDefinition (toolbar r) =
            [\<lparr>ColumnDefinition.name = ''Trace ID''\<rparr>, \<lparr>ColumnDefinition.name = ''Value''\<rparr>]
        \<and> length (toolbar_columns (toolbar r)) = 8
        \<and> length (table_columns (table r)) = 8)"
proof -
  let ?host = "\<lparr>fraction_toString = (\<lambda>x. []), Date_toLocaleString = (\<lambda>t. [])\<rparr>"
  let ?cols = "\<lambda>opts :: unit option.
              [\<lparr>ColumnDefinition.name = ''Trace ID''\<rparr>, \<lparr>ColumnDefinition.name = ''User ID''\<rparr>,
               \<lparr>ColumnDefinition.name = ''Value''\<rparr>]"
  let ?uq = "\<lambda>req :: fetch_request.
               \<lparr>query_result.isLoading = True, query_result.isError = False,
                query_result.error = None, query_result.data = None\<rparr>"
  let ?p = "\<lparr>props.projectId = ''p1'', userId = None, omittedFilter = Some [''User ID'']\<rparr>"
  obtain r where r: "ScoresTable ?host ?cols ?uq None ?p no_fragments = Inr r"
    by (simp add: ScoresTable_def tableData_def Let_def)
  have "toolbar_filterColumnDefinition (toolbar r) =
            [\<lparr>ColumnDefinition.name = ''Trace ID''\<rparr>, \<lparr>ColumnDefinition.name = ''Value''\<rparr>]
        \<and> length (toolbar_columns (toolbar r)) = 8
        \<and> length (table_columns (table r)) = 8"
    using C7_omittedFilter [OF r] by (simp add: Let_def withDefault_def columns_def)
  with r show ?thesis by blast
qed

subsection \<open>The data prop\<close>

text \<open>
  Claim C8. The data prop of the table is in exactly one of three states: loading; error,
  with the message of the error of the query; success, with the converted rows. A query
  that is loading gives the loading state whatever its other fields say.
\<close>

theorem C8_table_data:
  assumes "well_typed_result (uq (scores_query p addr))"
  shows "\<exists>r. ScoresTable host cols uq fo p addr = Inr r
           \<and> (let q = uq (scores_query p addr); d = table_data (table r)
              in (query_result.isLoading q \<longrightarrow> loading_state d)
                 \<and> (\<not> query_result.isLoading q \<and> query_result.isError q \<longrightarrow>
                      (\<exists>e. query_result.error q = Some e \<and> error_state (message e) d))
                 \<and> (\<not> query_result.isLoading q \<and> \<not> query_result.isError q \<longrightarrow>
                      (\<exists>s. query_result.data q = Some s
                         \<and> success_state (map (convertToTableRow host) (scores s)) d))
                 \<and> (loading_state d \<or> (\<exists>msg. error_state msg d) \<or> (\<exists>rows. success_state rows d))
                 \<and> (\<forall>msg rows. \<not> (loading_state d \<and> error_state msg d)
                       \<and> \<not> (loading_state d \<and> success_state rows d)
                       \<and> \<not> (error_state msg d \<and> success_state rows d)))"
proof -
  let ?q = "uq (scores_query p addr)"
  from tableData_well_typed [OF assms] obtain d where d: "tableData host ?q = Inr d" by blast
  then obtain r where r: "ScoresTable host cols uq fo p addr = Inr r"
    by (simp add: ScoresTable_def Let_def)
  have td: "table_data (table r) = d" using ScoresTable_Inr(6) [OF r] d by simp
  have l: "query_result.isLoading ?q \<longrightarrow> loading_state d"
    using d tableData_cases(1) [of ?q host] by (auto simp: loading_state_def)
  have e: "\<not> query_result.isLoading ?q \<and> query_result.isError ?q \<longrightarrow>
             (\<exists>e. query_result.error ?q = Some e \<and> error_state (message e) d)"
  proof (intro impI)
    assume a: "\<not> query_result.isLoading ?q \<and> query_result.isError ?q"
    with assms obtain e where e: "query_result.error ?q = Some e"
      by (auto simp: well_typed_result_def)
    with a d tableData_cases(2) [of ?q e host] have "error_state (message e) d"
      by (auto simp: error_state_def)
    with e show "\<exists>e. query_result.error ?q = Some e \<and> error_state (message e) d" by blast
  qed
  have s: "\<not> query_result.isLoading ?q \<and> \<not> query_result.isError ?q \<longrightarrow>
             (\<exists>s. query_result.data ?q = Some s
                \<and> success_state (map (convertToTableRow host) (scores s)) d)"
  proof (intro impI)
    assume a: "\<not> query_result.isLoading ?q \<and> \<not> query_result.isError ?q"
    with assms obtain s where s: "query_result.data ?q = Some s"
      by (auto simp: well_typed_result_def)
    with a d tableData_cases(3) [of ?q s host]
    have "success_state (map (convertToTableRow host) (scores s)) d"
      by (auto simp: success_state_def)
    with s show "\<exists>s. query_result.data ?q = Some s
                \<and> success_state (map (convertToTableRow host) (scores s)) d" by blast
  qed
  have one: "loading_state d \<or> (\<exists>msg. error_state msg d) \<or> (\<exists>rows. success_state rows d)"
    using l e s by blast
  show ?thesis
    using r td l e s one states_exclusive unfolding Let_def by blast
qed

text \<open>A failed query gives the error state with its message; a query that is loading
  and carries an error gives the loading state.\<close>

theorem C8_table_data_witness:
  "(\<exists>r. ScoresTable \<lparr>fraction_toString = (\<lambda>x. []), Date_toLocaleString = (\<lambda>t. [])\<rparr>
           (\<lambda>opts :: unit option. [] :: ColumnDefinition list)
           (\<lambda>req. \<lparr>query_result.isLoading = False, query_result.isError = True,
                     query_result.error = Some \<lparr>message = ''boom''\<rparr>,
                     query_result.data = None\<rparr>)
           None
           \<lparr>props.projectId = ''p1'', userId = None, omittedFilter = None\<rparr>
           no_fragments = Inr r
        \<and> error_state ''boom'' (table_data (table r)))
   \<and> (\<exists>r. ScoresTable \<lparr>fraction_toString = (\<lambda>x. []), Date_toLocaleString = (\<lambda>t. [])\<rparr>
           (\<lambda>opts :: unit option. [] :: ColumnDefinition list)
           (\<lambda>req. \<lparr>query_result.isLoading = True, query_result.isError = True,
                     query_result.error = Some \<lparr>message = ''boom''\<rparr>,
                     query_result.data = None\<rparr>)
           None
           \<lparr>props.projectId = ''p1'', userId = None, omittedFilter = None\<rparr>
           no_fragments = Inr r
        \<and> loading_state (table_data (table r)))"
proof -
  let ?host = "\<lparr>fraction_toString = (\<lambda>x. []), Date_toLocaleString = (\<lambda>t. [])\<rparr>"
  let ?cols = "\<lambda>opts :: unit option. [] :: ColumnDefinition list"
  let ?uq1 = "\<lambda>req :: fetch_request.
                \<lparr>query_result.isLoading = False, query_result.isError = True,
                 query_result.error = Some \<lparr>message = ''boom''\<rparr>, query_result.data = None\<rparr>"
  let ?uq2 = "\<lambda>req :: fetch_request.
                \<lparr>query_result.isLoading = True, query_result.isError = True,
                 query_result.error = Some \<lparr>message = ''boom''\<rparr>, query_result.data = None\<rparr>"
  let ?p = "\<lparr>props.projectId = ''p1'', userId = None, omittedFilter = None\<rparr>"
  have w1: "well_typed_result (?uq1 (scores_query ?p no_fragments))"
    and w2: "well_typed_result (?uq2 (scores_query ?p no_fragments))"
    by (simp_all add: well_typed_result_def)
  have 1: "\<exists>r. ScoresTable ?host ?cols ?uq1 None ?p no_fragments = Inr r
        \<and> error_state ''boom'' (table_data (table r))"
    using C8_table_data [where uq = ?uq1 and p = ?p and addr = no_fragments and host = ?host
        and cols = ?cols and fo = None, OF w1]
    by (auto simp: Let_def)
  have 2: "\<exists>r. ScoresTable ?host ?cols ?uq2 None ?p no_fragments = Inr r
        \<and> loading_state (table_data (table r))"
    using C8_table_data [where uq = ?uq2 and p = ?p and addr = no_fragments and host = ?host
        and cols = ?cols and fo = None, OF w2]
    by (auto simp: Let_def)
  from 1 2 show ?thesis by blast
qed

subsection \<open>The Observation ID column\<close>

text \<open>
  Claim C10. The column with the header "Observation ID" has the renderer
  \<open>observationId_cell\<close>. It returns a link exactly when the row has both an observation
  id and a trace id; the path of the link contains both; without a trace id the result is
  \<open>null\<close>, also when the observation id is present.
\<close>

theorem C10_observationId_cell:
  "(\<exists>c \<in> set (columns host pid).
      header c = ''Observation ID'' \<and> cell c = Some (observationId_cell pid))
   \<and> (\<forall>c \<in> set (columns host pid).
         header c = ''Observation ID'' \<longrightarrow> cell c = Some (observationId_cell pid))
   \<and> ((\<exists>pth v t. observationId_cell pid row = Inr (TableLink pth v t))
      \<longleftrightarrow> (getValue_observationId row \<noteq> None \<and> getValue_traceId row \<noteq> None))
   \<and> (\<forall>obs tr. getValue_observationId row = Some obs \<and> getValue_traceId row = Some tr \<longrightarrow>
         (let pth = ''/project/'' @ pid @ ''/traces/'' @ tr @ ''?observation='' @ obs
          in observationId_cell pid row = Inr (TableLink pth (Some obs) None)
             \<and> sublist tr pth \<and> sublist obs pth))
   \<and> (getValue_traceId row = None \<longrightarrow> observationId_cell pid row = Inr Null)
   \<and> (getValue_observationId row = None \<longrightarrow> observationId_cell pid row = Inr Null)"
proof -
  have 1: "(\<exists>pth v t. observationId_cell pid row = Inr (TableLink pth v t))
      \<longleftrightarrow> (getValue_observationId row \<noteq> None \<and> getValue_traceId row \<noteq> None)"
    by (auto simp: observationId_cell_def split: option.splits)
  have 2: "let pth = ''/project/'' @ pid @ ''/traces/'' @ tr @ ''?observation='' @ obs
          in observationId_cell pid row = Inr (TableLink pth (Some obs) None)
             \<and> sublist tr pth \<and> sublist obs pth"
    if "getValue_observationId row = Some obs \<and> getValue_traceId row = Some tr" for obs tr
  proof -
    have a: "sublist tr ((''/project/'' @ pid @ ''/traces/'') @ tr @ (''?observation='' @ obs))"
      by (rule sublist_appendI)
    have b: "sublist obs ((''/project/'' @ pid @ ''/traces/'' @ tr @ ''?observation='') @ obs @ [])"
      by (rule sublist_appendI)
    show ?thesis
      using that a b by (simp add: observationId_cell_def Let_def)
  qed
  have 3: "getValue_traceId row = None \<longrightarrow> observationId_cell pid row = Inr Null"
    by (simp add: observationId_cell_def split: option.splits)
  have 4: "getValue_observationId row = None \<longrightarrow> observationId_cell pid row = Inr Null"
    by (simp add: observationId_cell_def)
  from observationId_column [of host pid] 1 2 3 4 show ?thesis by blast
qed

text \<open>A row with both ids, and a row with an observation id only.\<close>

theorem C10_observationId_cell_witness:
  "observationId_cell ''p1''
       \<lparr>getValue_traceId = Some ''t1'', getValue_observationId = Some ''o1'',
        getValue_traceName = None, getValue_value = None, getValue_userId = None\<rparr>
     = Inr (TableLink ''/project/p1/traces/t1?observation=o1'' (Some ''o1'') None)
   \<and> observationId_cell ''p1''
       \<lparr>getValue_traceId = None, getValue_observationId = Some ''o1'',
        getValue_traceName = None, getValue_value = None, getValue_userId = None\<rparr>
     = Inr Null"
proof -
  let ?host = "\<lparr>fraction_toString = (\<lambda>x. []), Date_toLocaleString = (\<lambda>t. [])\<rparr>"
  let ?r1 = "\<lparr>getValue_traceId = Some ''t1'', getValue_observationId = Some ''o1'',
        getValue_traceName = None, getValue_value = None, getValue_userId = None\<rparr>"
  let ?r2 = "\<lparr>getValue_traceId = None, getValue_observationId = Some ''o1'',
        getValue_traceName = None, getValue_value = None, getValue_userId = None\<rparr>"
  show ?thesis
    using C10_observationId_cell [of ?host "''p1''" ?r1]
      C10_observationId_cell [of ?host "''p1''" ?r2]
    by (simp add: Let_def)
qed

end
